theory Spec2Isabelle
  imports Complex_Main "HOL-Library.Extended_Nat" "HOL-Library.Sublist"
begin

section \<open>Static configuration of src/index.js\<close>

text \<open>
  The advanced block of a difficulty preset and the preset itself. JavaScript numbers are
  modelled by \<open>real\<close>; \<open>attackDurationMs\<close> is \<open>null\<close> for the faster tiers and
  \<open>advanced\<close> is absent for all but the top tier.
\<close>

record advancedConfig =
  strafeIntervalMs :: real
  jumpPulseMs :: real
  jumpChance :: real
  healThreshold :: real
  healCooldownMs :: real
  aimHeightOffset :: real

record difficulty =
  preset_name :: string
  scanIntervalMs :: real
  reactionDelayRange :: "real \<times> real"
  attackDurationMs :: "real option"
  maintainSprint :: bool
  advanced :: "advancedConfig option"

definition MAX_SCAN_DISTANCE :: real where
  "MAX_SCAN_DISTANCE = 48"

definition easy :: difficulty where
  "easy = \<lparr>preset_name = ''easy'', scanIntervalMs = 3500, reactionDelayRange = (900, 2200),
            attackDurationMs = Some 4500, maintainSprint = False, advanced = None\<rparr>"

definition hard :: difficulty where
  "hard = \<lparr>preset_name = ''hard'', scanIntervalMs = 900, reactionDelayRange = (100, 350),
            attackDurationMs = None, maintainSprint = True, advanced = None\<rparr>"

definition godlike_advanced :: advancedConfig where
  "godlike_advanced = \<lparr>strafeIntervalMs = 650, jumpPulseMs = 220, jumpChance = 35 / 100,
            healThreshold = 14, healCooldownMs = 5500, aimHeightOffset = 13 / 10\<rparr>"

definition godlike :: difficulty where
  "godlike = \<lparr>preset_name = ''godlike'', scanIntervalMs = 450, reactionDelayRange = (45, 160),
            attackDurationMs = None, maintainSprint = True, advanced = Some godlike_advanced\<rparr>"

definition WEAPON_PRIORITY :: "string list" where
  "WEAPON_PRIORITY = [''netherite_sword'', ''diamond_sword'', ''iron_sword'', ''stone_sword'',
     ''golden_sword'', ''wooden_sword'', ''netherite_axe'', ''diamond_axe'', ''iron_axe'',
     ''stone_axe'', ''golden_axe'', ''wooden_axe'']"

definition ARMOR_PRIORITY_head :: "string list" where
  "ARMOR_PRIORITY_head = [''netherite_helmet'', ''diamond_helmet'', ''iron_helmet'',
     ''chainmail_helmet'', ''golden_helmet'', ''turtle_helmet'', ''leather_helmet'']"

definition ARMOR_PRIORITY_torso :: "string list" where
  "ARMOR_PRIORITY_torso = [''netherite_chestplate'', ''diamond_chestplate'', ''iron_chestplate'',
     ''chainmail_chestplate'', ''golden_chestplate'', ''leather_chestplate'']"

definition ARMOR_PRIORITY_legs :: "string list" where
  "ARMOR_PRIORITY_legs = [''netherite_leggings'', ''diamond_leggings'', ''iron_leggings'',
     ''chainmail_leggings'', ''golden_leggings'', ''leather_leggings'']"

definition ARMOR_PRIORITY_feet :: "string list" where
  "ARMOR_PRIORITY_feet = [''netherite_boots'', ''diamond_boots'', ''iron_boots'',
     ''chainmail_boots'', ''golden_boots'', ''leather_boots'']"

definition SHIELD_ITEMS :: "string list" where
  "SHIELD_ITEMS = [''shield'']"

definition HEALING_SOUPS :: "string list" where
  "HEALING_SOUPS = [''mushroom_stew'', ''beetroot_soup'', ''rabbit_stew'', ''suspicious_stew'']"

definition GOLDEN_APPLES :: "string list" where
  "GOLDEN_APPLES = [''enchanted_golden_apple'', ''golden_apple'']"

section \<open>The game client's view of the world\<close>

text \<open>
  The objects of the mineflayer client that the controller reads. An entity is a JavaScript
  object: \<open>ref\<close> is its identity (what \<open>===\<close> compares) and \<open>position\<close> its current
  position. \<open>distanceSquared\<close> is the method of the vec3 package that the scan calls on
  the bot's position: the sum of the squared coordinate differences. A player object is
  kept by the client for as long as the player is known, and the client assigns its
  \<open>entity\<close> field whenever the player's entity appears, is replaced or is gone.
\<close>

record vec3 =
  vx :: real
  vy :: real
  vz :: real

definition distanceSquared :: "vec3 \<Rightarrow> vec3 \<Rightarrow> real" where
  "distanceSquared a b =
     (vx b - vx a) * (vx b - vx a) + (vy b - vy a) * (vy b - vy a) + (vz b - vz a) * (vz b - vz a)"

record entity =
  ref :: nat
  position :: vec3

record player =
  player_entity :: "entity option"

record item =
  name :: string
  slot :: nat

text \<open>
  \<open>items\<close> is what \<open>bot.inventory.items()\<close> enumerates, \<open>slots\<close> the window's slot
  array (\<open>undefined\<close> as \<open>None\<close>, an empty slot as a \<open>None\<close> entry).
\<close>

record inventory =
  items :: "item list"
  slots :: "item option list option"

text \<open>
  The bot object. \<open>players\<close> is the object \<open>bot.players\<close> in the enumeration order of
  \<open>Object.entries\<close>: each value is the address of a player object, or \<open>null\<close>.
  \<open>playerObjects\<close> is the store of the player objects, by address: a closure that has
  captured a player object reads its fields there, whether or not \<open>bot.players\<close> still
  lists it. \<open>pvp_target\<close> is \<open>bot.pvp.target\<close>, the reference of the entity the combat
  plugin is engaged with; \<open>controls\<close> are the movement keys set by
  \<open>bot.setControlState\<close>.
\<close>

record bot =
  username :: string
  entity :: "entity option"
  players :: "(string \<times> nat option) list option"
  playerObjects :: "nat \<Rightarrow> player"
  health :: real
  inventory :: "inventory option"
  getEquipmentDestSlot :: "(string \<Rightarrow> nat option) option"
  pvp_target :: "nat option"
  controls :: "string \<Rightarrow> bool"

definition setControlState :: "string \<Rightarrow> bool \<Rightarrow> bot \<Rightarrow> bot" where
  "setControlState key v b = b\<lparr>controls := (controls b)(key := v)\<rparr>"

text \<open>The combat plugin's \<open>stop()\<close> and a successful \<open>attack(entity)\<close>.\<close>

definition pvp_stop :: "bot \<Rightarrow> bot" where
  "pvp_stop b = b\<lparr>pvp_target := None\<rparr>"

definition pvp_attack :: "entity \<Rightarrow> bot \<Rightarrow> bot" where
  "pvp_attack e b = b\<lparr>pvp_target := Some (ref e)\<rparr>"

section \<open>Target acquisition: findClosestPlayer\<close>

text \<open>
  \<open>closestDistance\<close> starts at \<open>Infinity\<close>, modelled by \<open>None\<close>: every distance is below
  it. The loop keeps the pair \<open>(closest, closestDistance)\<close>.
\<close>

definition below :: "real \<Rightarrow> real option \<Rightarrow> bool" where
  "below d closestDistance = (case closestDistance of None \<Rightarrow> True | Some c \<Rightarrow> d < c)"

fun closestLoop ::
  "string \<Rightarrow> vec3 \<Rightarrow> real \<Rightarrow> (string \<times> player option) list \<Rightarrow>
   (string \<times> entity) option \<times> real option \<Rightarrow> (string \<times> entity) option \<times> real option" where
  "closestLoop me pos maxDistanceSq [] acc = acc"
| "closestLoop me pos maxDistanceSq ((uname, pl) # rest) (closest, closestDistance) =
     (case pl of
        None \<Rightarrow> closestLoop me pos maxDistanceSq rest (closest, closestDistance)
      | Some p \<Rightarrow>
          if uname = me then closestLoop me pos maxDistanceSq rest (closest, closestDistance)
          else (case player_entity p of
             None \<Rightarrow> closestLoop me pos maxDistanceSq rest (closest, closestDistance)
           | Some e \<Rightarrow>
               let distanceSq = distanceSquared pos (position e) in
               if below distanceSq closestDistance \<and> distanceSq \<le> maxDistanceSq
               then closestLoop me pos maxDistanceSq rest (Some (uname, e), Some distanceSq)
               else closestLoop me pos maxDistanceSq rest (closest, closestDistance)))"

text \<open>\<open>Object.entries(bot.players)\<close>: each username with the player object it maps to.\<close>

definition playerEntries :: "bot \<Rightarrow> (string \<times> player option) list option" where
  "playerEntries b =
     map_option (map (\<lambda>(uname, a). (uname, map_option (playerObjects b) a))) (players b)"

definition findClosestPlayer :: "bot \<Rightarrow> real \<Rightarrow> (string \<times> entity) option" where
  "findClosestPlayer b maxDistanceSq =
     (case playerEntries b of
        None \<Rightarrow> None
      | Some ps \<Rightarrow>
          (case entity b of
             None \<Rightarrow> None
           | Some me \<Rightarrow> fst (closestLoop (username b) (position me) maxDistanceSq ps (None, None))))"

definition scanRadiusSq :: real where
  "scanRadiusSq = MAX_SCAN_DISTANCE * MAX_SCAN_DISTANCE"

text \<open>
  The players a scan considers: every entry of \<open>bot.players\<close> that is not \<open>null\<close>, is not
  the bot itself and has an entity.
\<close>

definition eligible :: "string \<Rightarrow> (string \<times> player option) list \<Rightarrow> (string \<times> entity) list" where
  "eligible me ps =
     concat (map (\<lambda>(uname, pl).
       case pl of
         None \<Rightarrow> []
       | Some p \<Rightarrow> if uname = me then []
                   else (case player_entity p of None \<Rightarrow> [] | Some e \<Rightarrow> [(uname, e)])) ps)"

definition candidates :: "bot \<Rightarrow> (string \<times> entity) list" where
  "candidates b =
     (case playerEntries b of None \<Rightarrow> [] | Some ps \<Rightarrow> eligible (username b) ps)"

text \<open>
  The planar distance of the spec's words: the squared distance in the horizontal plane,
  without the height.
\<close>

definition planarDistanceSquared :: "vec3 \<Rightarrow> vec3 \<Rightarrow> real" where
  "planarDistanceSquared a b = (vx b - vx a) * (vx b - vx a) + (vz b - vz a) * (vz b - vz a)"

text \<open>
  What the loop has established after the players \<open>seen\<close>: nothing selected and nobody
  in range, or the selected player is in range and no seen player in range is closer.
\<close>

definition acc_ok ::
  "vec3 \<Rightarrow> real \<Rightarrow> (string \<times> entity) list \<Rightarrow> (string \<times> entity) option \<times> real option \<Rightarrow> bool" where
  "acc_ok pos m seen acc =
     (case fst acc of
        None \<Rightarrow> snd acc = None \<and> (\<forall>c \<in> set seen. \<not> distanceSquared pos (position (snd c)) \<le> m)
      | Some c \<Rightarrow> snd acc = Some (distanceSquared pos (position (snd c))) \<and> c \<in> set seen \<and>
           distanceSquared pos (position (snd c)) \<le> m \<and>
           (\<forall>c' \<in> set seen. distanceSquared pos (position (snd c')) \<le> m \<longrightarrow>
               distanceSquared pos (position (snd c)) \<le> distanceSquared pos (position (snd c'))))"

section \<open>Gear optimisation: priorities and the per-slot step\<close>

text \<open>\<open>Array.prototype.indexOf\<close>: the first index of the value, or \<open>-1\<close>.\<close>

fun indexOf :: "string list \<Rightarrow> string \<Rightarrow> int" where
  "indexOf [] x = - 1"
| "indexOf (y # ys) x =
     (if y = x then 0 else (let i = indexOf ys x in if i = - 1 then - 1 else i + 1))"

text \<open>A priority is an index or \<open>Infinity\<close>: an extended natural number.\<close>

definition getItemPriority :: "string list \<Rightarrow> item option \<Rightarrow> enat" where
  "getItemPriority priorityList it =
     (case it of
        None \<Rightarrow> \<infinity>
      | Some i \<Rightarrow> (let index = indexOf priorityList (name i)
                  in if index = - 1 then \<infinity> else enat (nat index)))"

fun bestLoop :: "string list \<Rightarrow> item list \<Rightarrow> item option \<times> enat \<Rightarrow> item option \<times> enat" where
  "bestLoop priorityList [] acc = acc"
| "bestLoop priorityList (it # rest) (bestItem, bestPriority) =
     (let priority = getItemPriority priorityList (Some it)
      in if priority < bestPriority then bestLoop priorityList rest (Some it, priority)
         else bestLoop priorityList rest (bestItem, bestPriority))"

definition findBestInventoryItem :: "bot \<Rightarrow> string list \<Rightarrow> item option" where
  "findBestInventoryItem b priorityList =
     (case inventory b of
        None \<Rightarrow> None
      | Some invt \<Rightarrow> fst (bestLoop priorityList (items invt) (None, \<infinity>)))"

definition getEquippedItem :: "bot \<Rightarrow> string \<Rightarrow> item option" where
  "getEquippedItem b destination =
     (case getEquipmentDestSlot b of
        None \<Rightarrow> None
      | Some destSlot \<Rightarrow>
          (case inventory b of
             None \<Rightarrow> None
           | Some invt \<Rightarrow>
               (case destSlot destination of
                  None \<Rightarrow> None
                | Some sl \<Rightarrow>
                    (case slots invt of
                       None \<Rightarrow> None
                     | Some ss \<Rightarrow> if sl < length ss then ss ! sl else None))))"

text \<open>
  The test \<open>/item is not in inventory/i\<close> on an error message: the message contains the
  phrase, letters compared without case.
\<close>

definition lower :: "char \<Rightarrow> char" where
  "lower c = (let n = (of_char c :: nat) in if 65 \<le> n \<and> n \<le> 90 then char_of (n + 32) else c)"

definition notInInventory :: "string \<Rightarrow> bool" where
  "notInInventory message = sublist ''item is not in inventory'' (map lower message)"

text \<open>
  \<open>equipBestItemForSlot\<close> suspends at \<open>await bot.equip(best, destination)\<close>. The part before
  the await decides whether the call is issued (\<open>Some best\<close>) or the function returns; the part
  after it is the \<open>catch\<close> clause, given the rejection message of the call (\<open>None\<close>: it
  resolved). \<open>Inl\<close> is an error thrown to the caller.
\<close>

definition equipBestItemForSlot_begin :: "bot \<Rightarrow> string list \<Rightarrow> string \<Rightarrow> item option" where
  "equipBestItemForSlot_begin b priorityList destination =
     (if priorityList = [] then None
      else (case findBestInventoryItem b priorityList of
         None \<Rightarrow> None
       | Some best \<Rightarrow>
           (let equipped = getEquippedItem b destination;
                equippedPriority = getItemPriority priorityList equipped;
                candidatePriority = getItemPriority priorityList (Some best)
            in if candidatePriority < equippedPriority then Some best else None)))"

definition equipBestItemForSlot_resume :: "string option \<Rightarrow> string + unit" where
  "equipBestItemForSlot_resume equipError =
     (case equipError of
        None \<Rightarrow> Inr ()
      | Some message \<Rightarrow> if \<not> notInInventory message then Inl message else Inr ())"

datatype action = Equip item string | ActivateItem | DeactivateItem

text \<open>The whole function, with the outcome of the equip call as an input.\<close>

definition equipBestItemForSlot ::
  "bot \<Rightarrow> string list \<Rightarrow> string \<Rightarrow> string option \<Rightarrow> (string + unit) \<times> action list" where
  "equipBestItemForSlot b priorityList destination equipError =
     (case equipBestItemForSlot_begin b priorityList destination of
        None \<Rightarrow> (Inr (), [])
      | Some best \<Rightarrow> (equipBestItemForSlot_resume equipError, [Equip best destination]))"

text \<open>
  \<open>equipBestGear\<close> walks the six slots in order. Between two equip calls nothing else runs,
  so the pass is run up to its next await: \<open>None\<close> when it has completed, or the call it
  waits for and the slots still to do.
\<close>

definition gearSlots :: "(string list \<times> string) list" where
  "gearSlots = [(WEAPON_PRIORITY, ''hand''), (SHIELD_ITEMS, ''off-hand''),
     (ARMOR_PRIORITY_head, ''head''), (ARMOR_PRIORITY_torso, ''torso''),
     (ARMOR_PRIORITY_legs, ''legs''), (ARMOR_PRIORITY_feet, ''feet'')]"

fun equipBestGear_run ::
  "bot \<Rightarrow> (string list \<times> string) list \<Rightarrow> (item \<times> string \<times> (string list \<times> string) list) option" where
  "equipBestGear_run b [] = None"
| "equipBestGear_run b ((priorityList, destination) # rest) =
     (case equipBestItemForSlot_begin b priorityList destination of
        None \<Rightarrow> equipBestGear_run b rest
      | Some best \<Rightarrow> Some (best, destination, rest))"

section \<open>Healing: attemptHeal\<close>

record heal_state =
  inProgress :: bool
  lastHeal :: real

fun findItemByNames_loop :: "item list \<Rightarrow> string list \<Rightarrow> item option" where
  "findItemByNames_loop its [] = None"
| "findItemByNames_loop its (n # names) =
     (case find (\<lambda>it. name it = n) its of
        Some match \<Rightarrow> Some match
      | None \<Rightarrow> findItemByNames_loop its names)"

definition findItemByNames :: "bot \<Rightarrow> string list \<Rightarrow> item option" where
  "findItemByNames b names =
     (case inventory b of None \<Rightarrow> None | Some invt \<Rightarrow> findItemByNames_loop (items invt) names)"

text \<open>
  The callbacks that the controller hands to \<open>setTimeout\<close>. \<open>AttackTask\<close> closes over the
  scan's target, \<open>DisengageTask\<close> over \<open>refreshed\<close>, the player object that the attack
  timer has resolved: it holds the address of that object, whose \<open>entity\<close> field is read
  when the timer fires.
\<close>

datatype task =
    AttackTask "string \<times> entity"
  | DisengageTask nat
  | EquipPassTask
  | ScheduleEquipTask
  | JumpReleaseTask
  | DeactivateItemTask
  | ClearInProgressTask

datatype healResult = Soup | Gapple

text \<open>
  \<open>attemptHeal\<close> up to its await: the guards and the selection. It returns the heal state
  and, when it goes on to \<open>await bot.equip(item, 'hand')\<close>, the item and whether it is a soup;
  \<open>None\<close> is the return of \<open>null\<close>.
\<close>

definition attemptHeal_begin ::
  "bot \<Rightarrow> advancedConfig \<Rightarrow> heal_state \<Rightarrow> real \<Rightarrow> heal_state \<times> (item \<times> bool) option" where
  "attemptHeal_begin b adv state now =
     (if entity b = None \<or> health b \<le> 0 then (state, None)
      else if health b \<ge> healThreshold adv then (state, None)
      else if inProgress state \<or> now - lastHeal state < healCooldownMs adv then (state, None)
      else (let soup = findItemByNames b HEALING_SOUPS;
                goldenApple = (if soup \<noteq> None then None else findItemByNames b GOLDEN_APPLES)
            in case soup of
                 Some s \<Rightarrow> (state\<lparr>inProgress := True\<rparr>, Some (s, True))
               | None \<Rightarrow>
                   (case goldenApple of
                      None \<Rightarrow> (state, None)
                    | Some g \<Rightarrow> (state\<lparr>inProgress := True\<rparr>, Some (g, False)))))"

text \<open>
  \<open>attemptHeal\<close> after the await, given the rejection message of the equip call and the
  error thrown by \<open>bot.activateItem()\<close> (\<open>None\<close>: none). The result is the thrown error or
  the returned tag, the heal state, the item use begun and the timers set, the one of the
  \<open>finally\<close> block last.
\<close>

definition attemptHeal_resume ::
  "bool \<Rightarrow> real \<Rightarrow> string option \<Rightarrow> string option \<Rightarrow> heal_state \<Rightarrow>
   (string + healResult) \<times> heal_state \<times> action list \<times> (task \<times> real) list" where
  "attemptHeal_resume soup now equipError activateError state =
     (let resetDelay = (if soup then 600 else 2000);
          finally = [(ClearInProgressTask, resetDelay)]
      in case equipError of
           Some message \<Rightarrow> (Inl message, state, [], finally)
         | None \<Rightarrow>
             (case activateError of
                Some message \<Rightarrow> (Inl message, state, [], finally)
              | None \<Rightarrow>
                  (Inr (if soup then Soup else Gapple), state\<lparr>lastHeal := now\<rparr>, [ActivateItem],
                   (DeactivateItemTask, if soup then 150 else 1600) # finally)))"

text \<open>The whole function, with the outcomes of the two calls as inputs.\<close>

definition attemptHeal ::
  "bot \<Rightarrow> advancedConfig \<Rightarrow> heal_state \<Rightarrow> real \<Rightarrow> string option \<Rightarrow> string option \<Rightarrow>
   (string + healResult option) \<times> heal_state \<times> action list \<times> (task \<times> real) list" where
  "attemptHeal b adv state now equipError activateError =
     (case attemptHeal_begin b adv state now of
        (state1, None) \<Rightarrow> (Inr None, state1, [], [])
      | (state1, Some (it, soup)) \<Rightarrow>
          (case attemptHeal_resume soup now equipError activateError state1 of
             (result, state2, acts, tms) \<Rightarrow>
               (map_sum id Some result, state2, Equip it ''hand'' # acts, tms)))"

section \<open>The session: closure variables, timers and suspended calls\<close>

text \<open>
  A call suspended at \<open>await bot.equip(...)\<close>: \<open>attemptHeal\<close> (with \<open>soup\<close> and \<open>now\<close>)
  or a gear pass (with the slots it has still to do).
\<close>

datatype suspended = HealAwait bool real | PassAwait "(string list \<times> string) list"

text \<open>
  The state of one bot after \<open>spawn\<close>: the bot object, the variables the closures of
  \<open>setupPvpLoop\<close> and \<open>setupAdvancedCombat\<close> share, the pending one-shot timers of the
  event loop (handle, delay, callback), the suspended calls, the requests sent to the
  client and the console. \<open>scanInterval\<close> and \<open>strafeInterval\<close> say whether the interval
  is running, \<open>listening\<close> and \<open>slotListener\<close> whether the listeners are attached.
\<close>

record session =
  bot_of :: bot
  scheduledAttackTimeout :: "nat option"
  scanInterval :: bool
  strafeDirection :: int
  strafeInterval :: bool
  healState :: heal_state
  equipScheduled :: bool
  listening :: bool
  slotListener :: bool
  ended :: bool
  timers :: "(nat \<times> real \<times> task) list"
  nextHandle :: nat
  awaiting :: "suspended list"
  actions :: "action list"
  console :: "string list"

definition setTimeout :: "task \<Rightarrow> real \<Rightarrow> session \<Rightarrow> session" where
  "setTimeout t delay s =
     s\<lparr>timers := timers s @ [(nextHandle s, delay, t)], nextHandle := Suc (nextHandle s)\<rparr>"

definition clearTimeout :: "nat \<Rightarrow> session \<Rightarrow> session" where
  "clearTimeout h s = s\<lparr>timers := filter (\<lambda>t. fst t \<noteq> h) (timers s)\<rparr>"

definition log :: "string \<Rightarrow> session \<Rightarrow> session" where
  "log message s = s\<lparr>console := console s @ [''['' @ username (bot_of s) @ ''] '' @ message]\<rparr>"

definition randomBetween :: "real \<Rightarrow> real \<Rightarrow> real \<Rightarrow> real" where
  "randomBetween mn mx random =
     (let lower = min mn mx; upper = max mn mx in lower + random * (upper - lower))"

subsection \<open>setupPvpLoop\<close>

definition scan :: "difficulty \<Rightarrow> real \<Rightarrow> session \<Rightarrow> session" where
  "scan d random s =
     (case entity (bot_of s) of
        None \<Rightarrow> s
      | Some me \<Rightarrow>
          (case findClosestPlayer (bot_of s) scanRadiusSq of
             None \<Rightarrow>
               (let b1 = (if maintainSprint d then setControlState ''sprint'' False (bot_of s)
                          else bot_of s);
                    b2 = (if pvp_target b1 \<noteq> None then pvp_stop b1 else b1)
                in s\<lparr>bot_of := b2\<rparr>)
           | Some target \<Rightarrow>
               (let delay = randomBetween (fst (reactionDelayRange d)) (snd (reactionDelayRange d))
                              random;
                    s1 = (case scheduledAttackTimeout s of
                            Some h \<Rightarrow> clearTimeout h s
                          | None \<Rightarrow> s)
                in (setTimeout (AttackTask target) delay s1)
                     \<lparr>scheduledAttackTimeout := Some (nextHandle s1)\<rparr>)))"

text \<open>
  The test \<open>bot.pvp.target === refreshed.entity\<close>: both are the same entity object. The
  plugin's target is \<open>undefined\<close> when there is none and the client sets the entity of a
  player that is gone to \<open>null\<close>, so the test fails when either is absent.
\<close>

definition sameEntity :: "nat option \<Rightarrow> entity option \<Rightarrow> bool" where
  "sameEntity target e =
     (case target of
        None \<Rightarrow> False
      | Some r \<Rightarrow> (case e of None \<Rightarrow> False | Some x \<Rightarrow> r = ref x))"

text \<open>
  The callback of the duration timer, closed over the player object \<open>refreshed\<close> at the
  address \<open>a\<close>; it reads \<open>refreshed.entity\<close> when it runs.
\<close>

definition disengageTimeout :: "difficulty \<Rightarrow> nat \<Rightarrow> session \<Rightarrow> session" where
  "disengageTimeout d a s =
     (if sameEntity (pvp_target (bot_of s)) (player_entity (playerObjects (bot_of s) a))
      then (let b1 = pvp_stop (bot_of s);
                b2 = (if maintainSprint d then setControlState ''sprint'' False b1 else b1)
            in s\<lparr>bot_of := b2\<rparr>)
      else s)"

text \<open>
  The callback of the attack timer. \<open>attackError\<close> is the message of the error thrown by
  \<open>bot.pvp.attack\<close>, if it throws. Reading \<open>bot.players[...]\<close> when \<open>bot.players\<close> is
  undefined throws out of the callback, which ends it there.
\<close>

definition attackTimeout ::
  "difficulty \<Rightarrow> string \<times> entity \<Rightarrow> string option \<Rightarrow> session \<Rightarrow> session" where
  "attackTimeout d target attackError s =
     (case entity (bot_of s) of
        None \<Rightarrow> s
      | Some me \<Rightarrow>
          (case players (bot_of s) of
             None \<Rightarrow> s
           | Some ps \<Rightarrow>
               (case map_of ps (fst target) of
                  None \<Rightarrow> s
                | Some None \<Rightarrow> s
                | Some (Some refreshed) \<Rightarrow>
                    (case player_entity (playerObjects (bot_of s) refreshed) of
                       None \<Rightarrow> s
                     | Some e \<Rightarrow>
                         (let s1 = (if maintainSprint d
                                    then s\<lparr>bot_of := setControlState ''sprint'' True (bot_of s)\<rparr>
                                    else s);
                              s2 = (if pvp_target (bot_of s1) \<noteq> None \<and>
                                       pvp_target (bot_of s1) \<noteq> Some (ref e)
                                    then s1\<lparr>bot_of := pvp_stop (bot_of s1)\<rparr> else s1);
                              s3 = (if pvp_target (bot_of s2) = None
                                    then (case attackError of
                                            None \<Rightarrow>
                                              log (''Engaging '' @ fst target @ '' ('' @
                                                   preset_name d @ '').'')
                                                (s2\<lparr>bot_of := pvp_attack e (bot_of s2)\<rparr>)
                                          | Some message \<Rightarrow>
                                              log (''Failed to attack '' @ fst target @ '': '' @
                                                   message) s2)
                                    else s2)
                          in (case attackDurationMs d of
                                None \<Rightarrow> s3
                              | Some duration \<Rightarrow>
                                  if duration \<noteq> 0
                                  then setTimeout (DisengageTask refreshed) duration s3
                                  else s3))))))"

subsection \<open>setupAdvancedCombat\<close>

definition stopStrafe :: "session \<Rightarrow> session" where
  "stopStrafe s =
     s\<lparr>bot_of := setControlState ''jump'' False
                   (setControlState ''right'' False
                     (setControlState ''left'' False (bot_of s)))\<rparr>"

definition scheduleEquip :: "session \<Rightarrow> session" where
  "scheduleEquip s =
     (if equipScheduled s then s
      else setTimeout EquipPassTask 0 (s\<lparr>equipScheduled := True\<rparr>))"

text \<open>
  A gear pass runs from the given slots to its next await, where it is suspended;
  \<open>equipPassTimeout\<close> is the callback of the timer of \<open>scheduleEquip\<close>, and \<open>resumePass\<close>
  continues a suspended pass when its equip call settles.
\<close>

definition continuePass :: "(string list \<times> string) list \<Rightarrow> session \<Rightarrow> session" where
  "continuePass todo s =
     (case equipBestGear_run (bot_of s) todo of
        None \<Rightarrow> s
      | Some (best, destination, rest) \<Rightarrow>
          s\<lparr>actions := actions s @ [Equip best destination],
            awaiting := awaiting s @ [PassAwait rest]\<rparr>)"

definition equipPassTimeout :: "session \<Rightarrow> session" where
  "equipPassTimeout s = continuePass gearSlots (s\<lparr>equipScheduled := False\<rparr>)"

definition resumePass :: "(string list \<times> string) list \<Rightarrow> string option \<Rightarrow> session \<Rightarrow> session" where
  "resumePass rest equipError s =
     (case equipBestItemForSlot_resume equipError of
        Inl message \<Rightarrow> log (''Failed to optimise gear: '' @ message) s
      | Inr u \<Rightarrow> continuePass rest s)"

definition strafeTick :: "advancedConfig \<Rightarrow> real \<Rightarrow> session \<Rightarrow> session" where
  "strafeTick adv random s =
     (case pvp_target (bot_of s) of
        None \<Rightarrow> stopStrafe s
      | Some target \<Rightarrow>
          (let direction = strafeDirection s * (- 1);
               moveRight = (direction > 0);
               s1 = s\<lparr>strafeDirection := direction,
                      bot_of := setControlState ''left'' (\<not> moveRight)
                                  (setControlState ''right'' moveRight (bot_of s))\<rparr>
           in if jumpChance adv \<noteq> 0 \<and> random < jumpChance adv
              then setTimeout JumpReleaseTask (if jumpPulseMs adv \<noteq> 0 then jumpPulseMs adv else 200)
                     (s1\<lparr>bot_of := setControlState ''jump'' True (bot_of s1)\<rparr>)
              else s1))"

text \<open>
  \<open>healListener\<close> calls \<open>attemptHeal\<close>, which either returns \<open>null\<close> or is suspended at its
  equip call; \<open>resumeHeal\<close> is the rest of \<open>attemptHeal\<close> followed by the listener's \<open>then\<close>
  and \<open>catch\<close>.
\<close>

definition healListener :: "advancedConfig \<Rightarrow> real \<Rightarrow> session \<Rightarrow> session" where
  "healListener adv now s =
     (case attemptHeal_begin (bot_of s) adv (healState s) now of
        (state1, None) \<Rightarrow> s\<lparr>healState := state1\<rparr>
      | (state1, Some (it, soup)) \<Rightarrow>
          s\<lparr>healState := state1, actions := actions s @ [Equip it ''hand''],
            awaiting := awaiting s @ [HealAwait soup now]\<rparr>)"

definition resumeHeal ::
  "bool \<Rightarrow> real \<Rightarrow> string option \<Rightarrow> string option \<Rightarrow> session \<Rightarrow> session" where
  "resumeHeal soup now equipError activateError s =
     (case attemptHeal_resume soup now equipError activateError (healState s) of
        (result, state2, acts, tms) \<Rightarrow>
          (let s1 = s\<lparr>healState := state2, actions := actions s @ acts\<rparr>;
               s2 = fold (\<lambda>(t, delay). setTimeout t delay) tms s1
           in case result of
                Inl message \<Rightarrow> log (''Failed to heal: '' @ message) s2
              | Inr Soup \<Rightarrow> setTimeout ScheduleEquipTask 450 s2
              | Inr Gapple \<Rightarrow> setTimeout ScheduleEquipTask 1900 s2))"

definition collectListener :: "nat \<Rightarrow> session \<Rightarrow> session" where
  "collectListener collector s =
     (case entity (bot_of s) of
        None \<Rightarrow> s
      | Some me \<Rightarrow> if collector = ref me then scheduleEquip s else s)"

definition deathListener :: "session \<Rightarrow> session" where
  "deathListener s = setTimeout ScheduleEquipTask 600 (stopStrafe s)"

definition respawnListener :: "session \<Rightarrow> session" where
  "respawnListener s = setTimeout ScheduleEquipTask 700 (stopStrafe s)"

subsection \<open>The event loop\<close>

fun runTask :: "difficulty \<Rightarrow> task \<Rightarrow> string option \<Rightarrow> session \<Rightarrow> session" where
  "runTask d (AttackTask target) err s = attackTimeout d target err s"
| "runTask d (DisengageTask a) err s = disengageTimeout d a s"
| "runTask d EquipPassTask err s = equipPassTimeout s"
| "runTask d ScheduleEquipTask err s = scheduleEquip s"
| "runTask d JumpReleaseTask err s = s\<lparr>bot_of := setControlState ''jump'' False (bot_of s)\<rparr>"
| "runTask d DeactivateItemTask err s = s\<lparr>actions := actions s @ [DeactivateItem]\<rparr>"
| "runTask d ClearInProgressTask err s = s\<lparr>healState := (healState s)\<lparr>inProgress := False\<rparr>\<rparr>"

fun resume :: "suspended \<Rightarrow> string option \<Rightarrow> string option \<Rightarrow> session \<Rightarrow> session" where
  "resume (HealAwait soup now) equipError activateError s =
     resumeHeal soup now equipError activateError s"
| "resume (PassAwait rest) equipError activateError s = resumePass rest equipError s"

text \<open>
  What can happen to a session: an interval fires (with the draw of \<open>Math.random()\<close>), a
  pending timer fires, the client emits one of the events the controller listens to, a
  suspended equip call settles, the client updates the bot object, the connection ends.
\<close>

datatype event =
    Scan real
  | StrafeTick real
  | Fire nat "string option"
  | Health real
  | PlayerCollect nat
  | Death
  | Respawn
  | UpdateSlot
  | EquipSettled nat "string option" "string option"
  | World bot
  | End

definition endListeners :: "difficulty \<Rightarrow> session \<Rightarrow> session" where
  "endListeners d s =
     (let s1 = (case scheduledAttackTimeout s of
                  Some h \<Rightarrow> clearTimeout h (s\<lparr>scanInterval := False\<rparr>)
                | None \<Rightarrow> s\<lparr>scanInterval := False\<rparr>);
          s2 = (case advanced d of
                  None \<Rightarrow> s1
                | Some adv \<Rightarrow>
                    (stopStrafe s1)\<lparr>strafeInterval := False, listening := False,
                                    slotListener := False\<rparr>)
      in s2\<lparr>ended := True\<rparr>)"

fun step :: "difficulty \<Rightarrow> event \<Rightarrow> session \<Rightarrow> session" where
  "step d (Scan random) s = (if scanInterval s then scan d random s else s)"
| "step d (StrafeTick random) s =
     (case advanced d of
        None \<Rightarrow> s
      | Some adv \<Rightarrow> if strafeInterval s then strafeTick adv random s else s)"
| "step d (Fire h err) s =
     (case find (\<lambda>t. fst t = h) (timers s) of
        None \<Rightarrow> s
      | Some (h', delay, t) \<Rightarrow> runTask d t err (clearTimeout h s))"
| "step d (Health now) s =
     (case advanced d of
        None \<Rightarrow> s
      | Some adv \<Rightarrow> if listening s then healListener adv now s else s)"
| "step d (PlayerCollect collector) s = (if listening s then collectListener collector s else s)"
| "step d Death s = (if listening s then deathListener s else s)"
| "step d Respawn s = (if listening s then respawnListener s else s)"
| "step d UpdateSlot s = (if slotListener s then scheduleEquip s else s)"
| "step d (EquipSettled i equipError activateError) s =
     (if i < length (awaiting s)
      then resume (awaiting s ! i) equipError activateError
             (s\<lparr>awaiting := take i (awaiting s) @ drop (Suc i) (awaiting s)\<rparr>)
      else s)"
| "step d (World b) s = s\<lparr>bot_of := b\<rparr>"
| "step d End s = (if ended s then s else endListeners d s)"

definition setupPvpLoop :: "difficulty \<Rightarrow> session \<Rightarrow> session" where
  "setupPvpLoop d s = s\<lparr>scheduledAttackTimeout := None, scanInterval := True\<rparr>"

definition setupAdvancedCombat :: "difficulty \<Rightarrow> session \<Rightarrow> session" where
  "setupAdvancedCombat d s =
     (case advanced d of
        None \<Rightarrow> s
      | Some adv \<Rightarrow>
          (scheduleEquip
             (s\<lparr>strafeDirection := 1, healState := \<lparr>inProgress = False, lastHeal = 0\<rparr>,
                equipScheduled := False\<rparr>))
            \<lparr>strafeInterval := True, listening := True,
             slotListener := (inventory (bot_of s) \<noteq> None)\<rparr>)"

text \<open>
  The session of a bot when it has spawned, and the session after a list of events. The
  spawn handler also configures the pathfinder and logs the connection, and the advanced
  controller also aims at the target on every physics tick; neither touches the state
  modelled here.
\<close>

definition spawn :: "difficulty \<Rightarrow> bot \<Rightarrow> session" where
  "spawn d b =
     setupAdvancedCombat d (setupPvpLoop d
       \<lparr>bot_of = b, scheduledAttackTimeout = None, scanInterval = False, strafeDirection = 1,
        strafeInterval = False, healState = \<lparr>inProgress = False, lastHeal = 0\<rparr>,
        equipScheduled = False, listening = False, slotListener = False, ended = False,
        timers = [], nextHandle = 0, awaiting = [], actions = [], console = []\<rparr>)"

definition run :: "difficulty \<Rightarrow> bot \<Rightarrow> event list \<Rightarrow> session" where
  "run d b evs = foldl (\<lambda>s e. step d e s) (spawn d b) evs"

section \<open>The gear rules in the spec's words\<close>

text \<open>
  The priority rank of an item name in a slot's table: its index, or infinite when the
  table does not list it. The rank of what a slot holds is infinite when it holds nothing.
\<close>

fun rank :: "string list \<Rightarrow> string \<Rightarrow> enat" where
  "rank [] n = \<infinity>"
| "rank (x # xs) n = (if x = n then 0 else eSuc (rank xs n))"

definition equippedRank :: "bot \<Rightarrow> string list \<Rightarrow> string \<Rightarrow> enat" where
  "equippedRank b priorityList destination =
     (case getEquippedItem b destination of
        None \<Rightarrow> \<infinity>
      | Some e \<Rightarrow> rank priorityList (name e))"

definition inventoryItems :: "bot \<Rightarrow> item list" where
  "inventoryItems b = (case inventory b of None \<Rightarrow> [] | Some invt \<Rightarrow> items invt)"

text \<open>
  What the loop of \<open>findBestInventoryItem\<close> has established after the items \<open>seen\<close>:
  nothing selected and no ranked item, or a ranked item that no seen item outranks.
\<close>

definition best_ok :: "string list \<Rightarrow> item list \<Rightarrow> item option \<times> enat \<Rightarrow> bool" where
  "best_ok pl seen acc =
     (case fst acc of
        None \<Rightarrow> snd acc = \<infinity> \<and> (\<forall>it \<in> set seen. rank pl (name it) = \<infinity>)
      | Some x \<Rightarrow> x \<in> set seen \<and> snd acc = rank pl (name x) \<and> rank pl (name x) \<noteq> \<infinity> \<and>
          (\<forall>it \<in> set seen. rank pl (name x) \<le> rank pl (name it)))"

section \<open>What holds of a session at every moment\<close>

definition isAttack :: "task \<Rightarrow> bool" where
  "isAttack t = (case t of AttackTask target \<Rightarrow> True | _ \<Rightarrow> False)"

definition isHealAwait :: "suspended \<Rightarrow> bool" where
  "isHealAwait x = (case x of HealAwait soup now \<Rightarrow> True | _ \<Rightarrow> False)"

definition isPassAwait :: "suspended \<Rightarrow> bool" where
  "isPassAwait x = (case x of PassAwait rest \<Rightarrow> True | _ \<Rightarrow> False)"

text \<open>
  The pending attack timers, the pending timers of \<open>scheduleEquip\<close>, and the gear passes
  that have started and not yet returned.
\<close>

definition pendingAttacks :: "session \<Rightarrow> (nat \<times> real \<times> task) list" where
  "pendingAttacks s = filter (\<lambda>t. isAttack (snd (snd t))) (timers s)"

definition pendingPasses :: "session \<Rightarrow> (nat \<times> real \<times> task) list" where
  "pendingPasses s = filter (\<lambda>t. snd (snd t) = EquipPassTask) (timers s)"

definition passesInFlight :: "session \<Rightarrow> suspended list" where
  "passesInFlight s = filter isPassAwait (awaiting s)"

text \<open>
  Timer handles are never reused; a pending timer is an attack timer exactly when its
  handle is the one in \<open>scheduledAttackTimeout\<close>; a timer of \<open>scheduleEquip\<close> is pending
  exactly when \<open>equipScheduled\<close> is set, and then there is one; while \<open>inProgress\<close> is set,
  the timer that clears it is pending or \<open>attemptHeal\<close> still waits for its equip call.
\<close>

definition handles_ok :: "session \<Rightarrow> bool" where
  "handles_ok s =
     (distinct (map fst (timers s)) \<and> (\<forall>t \<in> set (timers s). fst t < nextHandle s) \<and>
      (\<forall>h. scheduledAttackTimeout s = Some h \<longrightarrow> h < nextHandle s))"

definition attack_ok :: "session \<Rightarrow> bool" where
  "attack_ok s =
     (\<forall>t \<in> set (timers s). isAttack (snd (snd t)) \<longleftrightarrow> scheduledAttackTimeout s = Some (fst t))"

definition equip_ok :: "session \<Rightarrow> bool" where
  "equip_ok s = (length (pendingPasses s) = (if equipScheduled s then 1 else 0))"

definition heal_ok :: "session \<Rightarrow> bool" where
  "heal_ok s =
     (inProgress (healState s) \<longrightarrow>
        (\<exists>t \<in> set (timers s). snd (snd t) = ClearInProgressTask) \<or>
        (\<exists>x \<in> set (awaiting s). isHealAwait x))"

definition invariant :: "session \<Rightarrow> bool" where
  "invariant s = (handles_ok s \<and> attack_ok s \<and> equip_ok s \<and> heal_ok s)"

section \<open>Sample inputs\<close>

definition origin :: vec3 where
  "origin = \<lparr>vx = 0, vy = 64, vz = 0\<rparr>"

definition at_x :: "real \<Rightarrow> vec3" where
  "at_x d = \<lparr>vx = d, vy = 64, vz = 0\<rparr>"

text \<open>A store holding the listed player objects; every other address holds no entity.\<close>

definition objectsOf :: "(nat \<times> player) list \<Rightarrow> nat \<Rightarrow> player" where
  "objectsOf xs a = (case map_of xs a of Some p \<Rightarrow> p | None \<Rightarrow> \<lparr>player_entity = None\<rparr>)"

definition lobby :: bot where
  "lobby = \<lparr>username = ''bot'',
     entity = Some \<lparr>ref = 0, position = origin\<rparr>,
     players = Some
       [(''bot'', Some 10), (''carol'', Some 12), (''bob'', Some 11), (''dave'', Some 13),
        (''erin'', Some 14), (''fay'', None)],
     playerObjects = objectsOf
       [(10, \<lparr>player_entity = Some \<lparr>ref = 0, position = origin\<rparr>\<rparr>),
        (12, \<lparr>player_entity = Some \<lparr>ref = 2, position = at_x 10\<rparr>\<rparr>),
        (11, \<lparr>player_entity = Some \<lparr>ref = 1, position = \<lparr>vx = 3, vy = 64, vz = 4\<rparr>\<rparr>\<rparr>),
        (13, \<lparr>player_entity = Some \<lparr>ref = 3, position = at_x 100\<rparr>\<rparr>),
        (14, \<lparr>player_entity = None\<rparr>)],
     health = 20, inventory = None, getEquipmentDestSlot = None, pvp_target = None,
     controls = (\<lambda>k. False)\<rparr>"

text \<open>
  Alice stands 48 blocks from the bot on its level; Bob is 5 blocks away in the plane and
  60 blocks above.
\<close>

definition above :: vec3 where
  "above = \<lparr>vx = 5, vy = 124, vz = 0\<rparr>"

definition duel :: bot where
  "duel = \<lparr>username = ''bot'',
     entity = Some \<lparr>ref = 0, position = origin\<rparr>,
     players = Some [(''alice'', Some 11), (''bob'', Some 12)],
     playerObjects = objectsOf
       [(11, \<lparr>player_entity = Some \<lparr>ref = 1, position = at_x 48\<rparr>\<rparr>),
        (12, \<lparr>player_entity = Some \<lparr>ref = 2, position = above\<rparr>\<rparr>)],
     health = 20, inventory = None, getEquipmentDestSlot = None, pvp_target = None,
     controls = (\<lambda>k. False)\<rparr>"

definition stew :: item where
  "stew = \<lparr>name = ''mushroom_stew'', slot = 12\<rparr>"

definition diamond_sword :: item where
  "diamond_sword = \<lparr>name = ''diamond_sword'', slot = 10\<rparr>"

definition stone_sword :: item where
  "stone_sword = \<lparr>name = ''stone_sword'', slot = 36\<rparr>"

definition iron_helmet :: item where
  "iron_helmet = \<lparr>name = ''iron_helmet'', slot = 11\<rparr>"

text \<open>The slot numbers of the player window, the first hotbar slot held.\<close>

definition destSlot :: "string \<Rightarrow> nat option" where
  "destSlot destination =
     (if destination = ''head'' then Some 5 else if destination = ''torso'' then Some 6
      else if destination = ''legs'' then Some 7 else if destination = ''feet'' then Some 8
      else if destination = ''hand'' then Some 36 else if destination = ''off-hand'' then Some 45
      else None)"

text \<open>A bot facing one player, with the given health, inventory items and held item.\<close>

definition fighter :: "real \<Rightarrow> item list \<Rightarrow> item option \<Rightarrow> bot" where
  "fighter hp its held = \<lparr>username = ''bot'',
     entity = Some \<lparr>ref = 0, position = origin\<rparr>,
     players = Some [(''alice'', Some 21)],
     playerObjects = objectsOf [(21, \<lparr>player_entity = Some \<lparr>ref = 7, position = at_x 5\<rparr>\<rparr>)],
     health = hp,
     inventory = Some \<lparr>items = its, slots = Some ((replicate 46 None)[36 := held])\<rparr>,
     getEquipmentDestSlot = Some destSlot, pvp_target = None, controls = (\<lambda>k. False)\<rparr>"

definition rested :: heal_state where
  "rested = \<lparr>inProgress = False, lastHeal = 0\<rparr>"

text \<open>A spawned top-tier session, and the same session engaged with the entity \<open>t\<close>.\<close>

definition arena :: session where
  "arena = spawn godlike (fighter 20 [] None)"

definition engaged :: "nat \<Rightarrow> session" where
  "engaged t = arena\<lparr>bot_of := (bot_of arena)\<lparr>pvp_target := Some t\<rparr>\<rparr>"

text \<open>
  A top-tier session of a bot that holds a stone sword and carries a diamond sword and an
  iron helmet.
\<close>

definition armoury :: session where
  "armoury = spawn godlike
     (fighter 20 [stone_sword, diamond_sword, iron_helmet] (Some stone_sword))"

text \<open>
  A slow-tier session in which the scan has found the player and the attack timer has
  fired, and the same session after the client has moved the engagement to entity 9.
\<close>

definition skirmish :: session where
  "skirmish = run easy (fighter 20 [] None) [Scan (1 / 2), Fire 0 None]"

definition retargeted :: session where
  "retargeted = step easy (World ((bot_of skirmish)\<lparr>pvp_target := Some 9\<rparr>)) skirmish"

text \<open>
  The bot of that session after the client has replaced the player's entity (the player
  object is the same, its entity is now entity 8), and the session after the next scan
  and attack timer have started an engagement on the new entity.
\<close>

definition respawned :: bot where
  "respawned = (bot_of skirmish)
     \<lparr>playerObjects :=
        objectsOf [(21, \<lparr>player_entity = Some \<lparr>ref = 8, position = at_x 6\<rparr>\<rparr>)]\<rparr>"

definition rematch :: session where
  "rematch = run easy (fighter 20 [] None)
     [Scan (1 / 2), Fire 0 None, World respawned, Scan (1 / 2), Fire 2 None]"

section \<open>Target acquisition\<close>

lemma closestLoop_acc_ok:
  "acc_ok pos m seen acc \<Longrightarrow> acc_ok pos m (seen @ eligible me ps) (closestLoop me pos m ps acc)"
proof (induction ps arbitrary: seen acc)
  case Nil
  then show ?case by (simp add: eligible_def)
next
  case (Cons a ps)
  obtain uname pl where a: "a = (uname, pl)" by (cases a)
  obtain closest cd where acc: "acc = (closest, cd)" by (cases acc)
  define acc' where "acc' =
    (case pl of
       None \<Rightarrow> acc
     | Some p \<Rightarrow>
         if uname = me then acc
         else (case player_entity p of
                 None \<Rightarrow> acc
               | Some e \<Rightarrow>
                   if below (distanceSquared pos (position e)) cd \<and>
                      distanceSquared pos (position e) \<le> m
                   then (Some (uname, e), Some (distanceSquared pos (position e)))
                   else acc))"
  have one: "acc_ok pos m (seen @ eligible me [a]) acc'"
    using Cons.prems unfolding a acc acc'_def
    by (auto simp: eligible_def acc_ok_def below_def split: option.splits)
  have unroll: "closestLoop me pos m (a # ps) acc = closestLoop me pos m ps acc'"
    unfolding a acc acc'_def by (simp add: Let_def split: option.splits)
  have parts: "seen @ eligible me (a # ps) = (seen @ eligible me [a]) @ eligible me ps"
    by (simp add: eligible_def)
  show ?case unfolding unroll parts by (rule Cons.IH [OF one])
qed

lemma findClosestPlayer_acc_ok:
  assumes "entity b = Some me" and "playerEntries b = Some ps"
  shows "findClosestPlayer b m = fst (closestLoop (username b) (position me) m ps (None, None))"
    and "acc_ok (position me) m (candidates b)
           (closestLoop (username b) (position me) m ps (None, None))"
proof -
  show "findClosestPlayer b m = fst (closestLoop (username b) (position me) m ps (None, None))"
    using assms by (simp add: findClosestPlayer_def)
  have "acc_ok (position me) m [] (None, None)"
    by (simp add: acc_ok_def)
  from closestLoop_acc_ok [OF this, of "username b" ps]
  show "acc_ok (position me) m (candidates b)
          (closestLoop (username b) (position me) m ps (None, None))"
    using assms by (simp add: candidates_def)
qed

lemma findClosestPlayer_None:
  assumes "entity b = Some me" and "findClosestPlayer b m = None" and "c \<in> set (candidates b)"
  shows "m < distanceSquared (position me) (position (snd c))"
proof (cases "playerEntries b")
  case None
  then show ?thesis using assms(3) by (simp add: candidates_def)
next
  case (Some ps)
  have "fst (closestLoop (username b) (position me) m ps (None, None)) = None"
    using findClosestPlayer_acc_ok(1) [OF assms(1) Some, of m] assms(2) by simp
  with findClosestPlayer_acc_ok(2) [OF assms(1) Some, of m] assms(3)
  show ?thesis by (auto simp: acc_ok_def not_le)
qed

lemma findClosestPlayer_Some:
  assumes "entity b = Some me" and "findClosestPlayer b m = Some c"
  shows "c \<in> set (candidates b)"
    and "distanceSquared (position me) (position (snd c)) \<le> m"
    and "c' \<in> set (candidates b) \<Longrightarrow>
         distanceSquared (position me) (position (snd c))
           \<le> distanceSquared (position me) (position (snd c'))"
proof -
  obtain ps where ps: "playerEntries b = Some ps"
    using assms(2) by (cases "playerEntries b") (auto simp: findClosestPlayer_def)
  have "fst (closestLoop (username b) (position me) m ps (None, None)) = Some c"
    using findClosestPlayer_acc_ok(1) [OF assms(1) ps, of m] assms(2) by simp
  with findClosestPlayer_acc_ok(2) [OF assms(1) ps, of m]
  have in_c: "c \<in> set (candidates b)"
    and near: "distanceSquared (position me) (position (snd c)) \<le> m"
    and least: "\<And>x. x \<in> set (candidates b) \<Longrightarrow>
        distanceSquared (position me) (position (snd x)) \<le> m \<Longrightarrow>
        distanceSquared (position me) (position (snd c))
          \<le> distanceSquared (position me) (position (snd x))"
    by (auto simp: acc_ok_def)
  show "c \<in> set (candidates b)" by (rule in_c)
  show "distanceSquared (position me) (position (snd c)) \<le> m" by (rule near)
  show "distanceSquared (position me) (position (snd c))
          \<le> distanceSquared (position me) (position (snd c'))"
    if "c' \<in> set (candidates b)"
  proof (cases "distanceSquared (position me) (position (snd c')) \<le> m")
    case True
    then show ?thesis using least that by blast
  next
    case False
    then show ?thesis using near by linarith
  qed
qed

text \<open>
  C1, as stated, fails twice on one scan. The scan returns Alice, who stands at exactly 48
  blocks: her squared distance is not strictly below \<open>48\<^sup>2\<close>, under the planar reading
  as under the three-coordinate one. And it passes over Bob, whose squared planar distance
  is 25, strictly below \<open>48\<^sup>2\<close> and below Alice's: the distance the scan compares counts
  the height, and by it Bob is out of range.
\<close>

theorem findClosestPlayer_planar_strict_counterexample:
  "findClosestPlayer duel scanRadiusSq = Some (''alice'', \<lparr>ref = 1, position = at_x 48\<rparr>)
   \<and> candidates duel
       = [(''alice'', \<lparr>ref = 1, position = at_x 48\<rparr>), (''bob'', \<lparr>ref = 2, position = above\<rparr>)]
   \<and> \<not> distanceSquared origin (at_x 48) < MAX_SCAN_DISTANCE * MAX_SCAN_DISTANCE
   \<and> \<not> planarDistanceSquared origin (at_x 48) < MAX_SCAN_DISTANCE * MAX_SCAN_DISTANCE
   \<and> planarDistanceSquared origin above < MAX_SCAN_DISTANCE * MAX_SCAN_DISTANCE
   \<and> planarDistanceSquared origin above < planarDistanceSquared origin (at_x 48)
   \<and> \<not> distanceSquared origin above \<le> MAX_SCAN_DISTANCE * MAX_SCAN_DISTANCE"
  by (simp add: duel_def origin_def at_x_def above_def findClosestPlayer_def candidates_def
      eligible_def playerEntries_def objectsOf_def below_def distanceSquared_def
      planarDistanceSquared_def scanRadiusSq_def MAX_SCAN_DISTANCE_def)

text \<open>
  C1 (amended): when the bot is in the world, a scan with no result means that every other
  known player entity is farther than \<open>48\<^sup>2\<close> in squared distance, the distance being
  taken over all three coordinates; a scan with a result returns one of the other known
  player entities, its squared distance is at most \<open>48\<^sup>2\<close> (the bound is inclusive),
  and no other known player entity is closer.
\<close>

theorem findClosestPlayer_nearest_in_range:
  assumes "entity b = Some me"
  shows "case findClosestPlayer b scanRadiusSq of
           None \<Rightarrow>
             \<forall>c \<in> set (candidates b).
               scanRadiusSq < distanceSquared (position me) (position (snd c))
         | Some c \<Rightarrow>
             c \<in> set (candidates b) \<and>
             distanceSquared (position me) (position (snd c)) \<le> scanRadiusSq \<and>
             (\<forall>c' \<in> set (candidates b).
                distanceSquared (position me) (position (snd c))
                  \<le> distanceSquared (position me) (position (snd c')))"
proof (cases "findClosestPlayer b scanRadiusSq")
  case None
  then show ?thesis using findClosestPlayer_None [OF assms] by simp
next
  case (Some c)
  then show ?thesis using findClosestPlayer_Some [OF assms Some] by simp
qed

theorem findClosestPlayer_nearest_in_range_witness:
  "entity lobby = Some \<lparr>ref = 0, position = origin\<rparr>
   \<and> findClosestPlayer lobby scanRadiusSq
       = Some (''bob'', \<lparr>ref = 1, position = \<lparr>vx = 3, vy = 64, vz = 4\<rparr>\<rparr>)
   \<and> candidates lobby
       = [(''carol'', \<lparr>ref = 2, position = at_x 10\<rparr>),
          (''bob'', \<lparr>ref = 1, position = \<lparr>vx = 3, vy = 64, vz = 4\<rparr>\<rparr>),
          (''dave'', \<lparr>ref = 3, position = at_x 100\<rparr>)]
   \<and> distanceSquared origin \<lparr>vx = 3, vy = 64, vz = 4\<rparr> = 25
   \<and> distanceSquared origin (at_x 10) = 100
   \<and> scanRadiusSq = 2304"
  using findClosestPlayer_nearest_in_range [of lobby "\<lparr>ref = 0, position = origin\<rparr>"]
  by (simp add: lobby_def origin_def at_x_def findClosestPlayer_def candidates_def eligible_def
      playerEntries_def objectsOf_def below_def distanceSquared_def scanRadiusSq_def
      MAX_SCAN_DISTANCE_def)

section \<open>Gear optimisation\<close>

lemma indexOf_rank:
  "(indexOf pl n = - 1 \<longrightarrow> rank pl n = \<infinity>) \<and>
   (indexOf pl n \<noteq> - 1 \<longrightarrow> 0 \<le> indexOf pl n \<and> rank pl n = enat (nat (indexOf pl n)))"
proof (induction pl)
  case Nil
  then show ?case by simp
next
  case (Cons x xs)
  then show ?case
    by (auto simp: Let_def zero_enat_def eSuc_enat nat_add_distrib)
qed

lemma getItemPriority_rank: "getItemPriority pl (Some it) = rank pl (name it)"
  using indexOf_rank [of pl "name it"] by (auto simp: getItemPriority_def Let_def)

lemma getItemPriority_equipped:
  "getItemPriority pl (getEquippedItem b dest) = equippedRank b pl dest"
proof (cases "getEquippedItem b dest")
  case None
  then show ?thesis by (simp add: equippedRank_def getItemPriority_def)
next
  case (Some e)
  then show ?thesis by (simp add: equippedRank_def getItemPriority_rank)
qed

lemma rank_infinity: "rank pl n = \<infinity> \<longleftrightarrow> n \<notin> set pl"
  by (induction pl) (auto simp: zero_enat_def eSuc_def split: enat.splits)

lemma rank_index: "rank pl n = enat i \<longleftrightarrow> i < length pl \<and> pl ! i = n \<and> n \<notin> set (take i pl)"
proof (induction pl arbitrary: i)
  case Nil
  then show ?case by simp
next
  case (Cons x xs)
  show ?case
  proof (cases i)
    case 0
    then show ?thesis by (auto simp: zero_enat_def eSuc_def split: enat.splits)
  next
    case (Suc j)
    then show ?thesis using Cons.IH [of j]
      by (auto simp: zero_enat_def eSuc_def split: enat.splits)
  qed
qed

lemma bestLoop_best_ok:
  "best_ok pl seen acc \<Longrightarrow> best_ok pl (seen @ its) (bestLoop pl its acc)"
proof (induction its arbitrary: seen acc)
  case Nil
  then show ?case by simp
next
  case (Cons it its)
  obtain bi bp where acc: "acc = (bi, bp)" by (cases acc)
  define acc' where
    "acc' = (if rank pl (name it) < bp then (Some it, rank pl (name it)) else acc)"
  have one: "best_ok pl (seen @ [it]) acc'"
    using Cons.prems unfolding acc acc'_def
    by (auto simp: best_ok_def not_less split: option.splits dest: enat_iless)
  have unroll: "bestLoop pl (it # its) acc = bestLoop pl its acc'"
    unfolding acc acc'_def by (simp add: Let_def getItemPriority_rank)
  have parts: "seen @ it # its = (seen @ [it]) @ its" by simp
  show ?case unfolding unroll parts by (rule Cons.IH [OF one])
qed

lemma findBestInventoryItem_ok:
  "best_ok pl (inventoryItems b)
     (findBestInventoryItem b pl,
      case findBestInventoryItem b pl of None \<Rightarrow> \<infinity> | Some x \<Rightarrow> rank pl (name x))"
proof (cases "inventory b")
  case None
  then show ?thesis by (simp add: findBestInventoryItem_def inventoryItems_def best_ok_def)
next
  case (Some invt)
  have "best_ok pl [] (None, \<infinity>)" by (simp add: best_ok_def)
  from bestLoop_best_ok [OF this, of "items invt"]
  show ?thesis using Some
    by (auto simp: findBestInventoryItem_def inventoryItems_def best_ok_def split: option.splits)
qed

lemma findBest_None:
  "findBestInventoryItem b pl = None \<Longrightarrow> it \<in> set (inventoryItems b) \<Longrightarrow>
   rank pl (name it) = \<infinity>"
  using findBestInventoryItem_ok [of pl b] by (simp add: best_ok_def)

lemma findBest_Some:
  assumes "findBestInventoryItem b pl = Some best"
  shows "best \<in> set (inventoryItems b)" and "rank pl (name best) \<noteq> \<infinity>"
    and "it \<in> set (inventoryItems b) \<Longrightarrow> rank pl (name best) \<le> rank pl (name it)"
  using findBestInventoryItem_ok [of pl b] assms by (simp_all add: best_ok_def)

lemma equipBestItemForSlot_begin_rank:
  "equipBestItemForSlot_begin b pl dest =
     (case findBestInventoryItem b pl of
        None \<Rightarrow> None
      | Some best \<Rightarrow> if rank pl (name best) < equippedRank b pl dest then Some best else None)"
proof (cases "pl = []")
  case True
  have "findBestInventoryItem b [] = None"
  proof (cases "findBestInventoryItem b []")
    case None
    then show ?thesis .
  next
    case (Some x)
    from findBest_Some(2) [OF this] show ?thesis by simp
  qed
  then show ?thesis using True by (simp add: equipBestItemForSlot_begin_def)
next
  case False
  then show ?thesis
    by (simp add: equipBestItemForSlot_begin_def Let_def getItemPriority_rank
        getItemPriority_equipped split: option.splits)
qed

text \<open>Evaluations on the sample inventories.\<close>

lemma sample_upgrade:
  "equipBestItemForSlot_begin (fighter 20 [stone_sword, diamond_sword] (Some stone_sword))
     WEAPON_PRIORITY ''hand'' = Some diamond_sword"
  by code_simp

lemma sample_keep:
  "equipBestItemForSlot_begin (fighter 20 [diamond_sword, stone_sword] (Some diamond_sword))
     WEAPON_PRIORITY ''hand'' = None"
  by code_simp

lemma sample_ranks:
  "rank WEAPON_PRIORITY (name diamond_sword) = 1"
  "rank WEAPON_PRIORITY (name stone_sword) = 3"
  "equippedRank (fighter 20 [stone_sword, diamond_sword] (Some stone_sword))
     WEAPON_PRIORITY ''hand'' = 3"
  "equippedRank (fighter 20 [diamond_sword, stone_sword] (Some diamond_sword))
     WEAPON_PRIORITY ''hand'' = 1"
  by code_simp+

lemma sample_messages:
  "notInInventory ''Item is not in inventory''"
  "\<not> notInInventory ''Server rejected transaction for clicking on slot 36''"
  by code_simp+

text \<open>
  C5: the per-slot step issues an equip call exactly when some inventory item has a rank
  in the slot's table strictly below the rank of the equipped item; the call is then the
  only one, it is for an inventory item of least rank, and that rank is strictly below the
  equipped item's. With no strictly better item (equal or worse candidates, the best item
  already equipped) no call is issued.
\<close>

theorem equip_only_when_strictly_better:
  "(snd (equipBestItemForSlot b pl dest err) \<noteq> [] \<longleftrightarrow>
      (\<exists>it \<in> set (inventoryItems b). rank pl (name it) < equippedRank b pl dest))
   \<and> (\<forall>a \<in> set (snd (equipBestItemForSlot b pl dest err)).
        \<exists>best \<in> set (inventoryItems b).
           a = Equip best dest \<and> snd (equipBestItemForSlot b pl dest err) = [a] \<and>
           rank pl (name best) < equippedRank b pl dest \<and>
           (\<forall>it \<in> set (inventoryItems b). rank pl (name best) \<le> rank pl (name it)))"
proof (cases "findBestInventoryItem b pl")
  case None
  have "\<not> (\<exists>it \<in> set (inventoryItems b). rank pl (name it) < equippedRank b pl dest)"
    using findBest_None [OF None] by auto
  then show ?thesis
    using None by (simp add: equipBestItemForSlot_def equipBestItemForSlot_begin_rank)
next
  case (Some best)
  show ?thesis
  proof (cases "rank pl (name best) < equippedRank b pl dest")
    case True
    then show ?thesis using Some findBest_Some [OF Some]
      by (auto simp: equipBestItemForSlot_def equipBestItemForSlot_begin_rank)
  next
    case False
    have "\<not> (\<exists>it \<in> set (inventoryItems b). rank pl (name it) < equippedRank b pl dest)"
      using findBest_Some(3) [OF Some] False by (meson le_less_trans)
    then show ?thesis
      using Some False by (simp add: equipBestItemForSlot_def equipBestItemForSlot_begin_rank)
  qed
qed

theorem equip_only_when_strictly_better_witness:
  "snd (equipBestItemForSlot (fighter 20 [stone_sword, diamond_sword] (Some stone_sword))
          WEAPON_PRIORITY ''hand'' None) = [Equip diamond_sword ''hand'']
   \<and> rank WEAPON_PRIORITY (name diamond_sword)
       < equippedRank (fighter 20 [stone_sword, diamond_sword] (Some stone_sword))
           WEAPON_PRIORITY ''hand''
   \<and> snd (equipBestItemForSlot (fighter 20 [diamond_sword, stone_sword] (Some diamond_sword))
          WEAPON_PRIORITY ''hand'' None) = []
   \<and> \<not> rank WEAPON_PRIORITY (name stone_sword)
       < equippedRank (fighter 20 [diamond_sword, stone_sword] (Some diamond_sword))
           WEAPON_PRIORITY ''hand''"
  using equip_only_when_strictly_better
          [of "fighter 20 [stone_sword, diamond_sword] (Some stone_sword)" WEAPON_PRIORITY
              "''hand''" None]
        equip_only_when_strictly_better
          [of "fighter 20 [diamond_sword, stone_sword] (Some diamond_sword)" WEAPON_PRIORITY
              "''hand''" None]
  by (simp add: equipBestItemForSlot_def sample_upgrade sample_keep sample_ranks)

lemma equipBestGear_run_None:
  "equipBestGear_run b todo = None \<longleftrightarrow>
     (\<forall>x \<in> set todo. equipBestItemForSlot_begin b (fst x) (snd x) = None)"
  by (induction todo) (auto split: option.splits)

lemma equipBestGear_run_Some:
  "equipBestGear_run b todo = Some (best, dest, rest) \<longleftrightarrow>
     (\<exists>skipped pl. todo = skipped @ (pl, dest) # rest \<and>
        (\<forall>x \<in> set skipped. equipBestItemForSlot_begin b (fst x) (snd x) = None) \<and>
        equipBestItemForSlot_begin b pl dest = Some best)"
proof (induction todo)
  case Nil
  then show ?case by simp
next
  case (Cons a todo)
  obtain pl0 dest0 where a: "a = (pl0, dest0)" by (cases a)
  show ?case
  proof (cases "equipBestItemForSlot_begin b pl0 dest0")
    case None
    have "(\<exists>skipped pl. a # todo = skipped @ (pl, dest) # rest \<and>
             (\<forall>x \<in> set skipped. equipBestItemForSlot_begin b (fst x) (snd x) = None) \<and>
             equipBestItemForSlot_begin b pl dest = Some best)
          \<longleftrightarrow> (\<exists>skipped pl. todo = skipped @ (pl, dest) # rest \<and>
             (\<forall>x \<in> set skipped. equipBestItemForSlot_begin b (fst x) (snd x) = None) \<and>
             equipBestItemForSlot_begin b pl dest = Some best)"
      (is "?L \<longleftrightarrow> ?R")
    proof
      assume ?L
      then obtain skipped pl where sk: "a # todo = skipped @ (pl, dest) # rest"
        and quiet: "\<forall>x \<in> set skipped. equipBestItemForSlot_begin b (fst x) (snd x) = None"
        and hit: "equipBestItemForSlot_begin b pl dest = Some best" by blast
      show ?R
      proof (cases skipped)
        case Nil
        then have "a = (pl, dest)" using sk by simp
        then show ?thesis using a None hit by simp
      next
        case (Cons c more)
        then have "todo = more @ (pl, dest) # rest" using sk by simp
        moreover have "\<forall>x \<in> set more. equipBestItemForSlot_begin b (fst x) (snd x) = None"
          using quiet Cons by simp
        ultimately show ?thesis using hit by blast
      qed
    next
      assume ?R
      then obtain skipped pl where sk: "todo = skipped @ (pl, dest) # rest"
        and quiet: "\<forall>x \<in> set skipped. equipBestItemForSlot_begin b (fst x) (snd x) = None"
        and hit: "equipBestItemForSlot_begin b pl dest = Some best" by blast
      have "a # todo = (a # skipped) @ (pl, dest) # rest" using sk by simp
      moreover have "\<forall>x \<in> set (a # skipped). equipBestItemForSlot_begin b (fst x) (snd x) = None"
        using quiet a None by simp
      ultimately show ?L using hit by blast
    qed
    then show ?thesis using Cons.IH a None by simp
  next
    case (Some found)
    have "(\<exists>skipped pl. a # todo = skipped @ (pl, dest) # rest \<and>
             (\<forall>x \<in> set skipped. equipBestItemForSlot_begin b (fst x) (snd x) = None) \<and>
             equipBestItemForSlot_begin b pl dest = Some best)
          \<longleftrightarrow> (found = best \<and> dest0 = dest \<and> todo = rest)"
      (is "?L \<longleftrightarrow> ?R")
    proof
      assume ?L
      then obtain skipped pl where sk: "a # todo = skipped @ (pl, dest) # rest"
        and quiet: "\<forall>x \<in> set skipped. equipBestItemForSlot_begin b (fst x) (snd x) = None"
        and hit: "equipBestItemForSlot_begin b pl dest = Some best" by blast
      show ?R
      proof (cases skipped)
        case Nil
        then have "a = (pl, dest)" "todo = rest" using sk by simp_all
        then show ?thesis using a Some hit by simp
      next
        case (Cons c more)
        then have "c = a" using sk by simp
        then have "equipBestItemForSlot_begin b pl0 dest0 = None" using quiet Cons a by simp
        then show ?thesis using Some by simp
      qed
    next
      assume ?R
      then have "a # todo = [] @ (pl0, dest) # rest" "equipBestItemForSlot_begin b pl0 dest = Some best"
        using a Some by simp_all
      then show ?L by (metis empty_iff list.set(1))
    qed
    then show ?thesis using a Some by auto
  qed
qed

text \<open>Evaluations on the sample inventories.\<close>

lemma sample_armoury:
  "equipBestItemForSlot_begin (bot_of armoury) WEAPON_PRIORITY ''hand'' = Some diamond_sword"
  "equipBestGear_run (bot_of armoury) (tl gearSlots)
     = Some (iron_helmet, ''head'',
             [(ARMOR_PRIORITY_torso, ''torso''), (ARMOR_PRIORITY_legs, ''legs''),
              (ARMOR_PRIORITY_feet, ''feet'')])"
  "actions armoury = []"
  "awaiting armoury = []"
  "console armoury = []"
  "username (bot_of armoury) = ''bot''"
  by code_simp+

lemma sample_slots:
  "tl gearSlots
     = [(SHIELD_ITEMS, ''off-hand'')] @ (ARMOR_PRIORITY_head, ''head'') #
       [(ARMOR_PRIORITY_torso, ''torso''), (ARMOR_PRIORITY_legs, ''legs''),
        (ARMOR_PRIORITY_feet, ''feet'')]"
  "equipBestItemForSlot_begin (bot_of armoury) SHIELD_ITEMS ''off-hand'' = None"
  "equipBestItemForSlot_begin (bot_of armoury) ARMOR_PRIORITY_head ''head'' = Some iron_helmet"
  by (simp add: gearSlots_def, code_simp+)

text \<open>
  C8: when the equip call of a per-slot step fails, a message that matches
  \<open>/item is not in inventory/i\<close> is swallowed and the step returns normally; any other
  message is thrown to the caller. In the pass, after a swallowed failure the remaining
  slots are evaluated in order: the slots with no strictly better item are skipped, the
  equip call of the first slot that has one is issued and the pass waits for it with the
  slots after that one still to do, or the pass ends when no slot is left. After any other
  failure the pass ends at once: no further equip call is issued and \<open>scheduleEquip\<close>
  logs the message.
\<close>

theorem equip_failure_swallowed_or_thrown:
  assumes "equipBestItemForSlot_begin b pl dest = Some best"
  shows "equipBestItemForSlot b pl dest (Some message)
           = (if notInInventory message then Inr () else Inl message, [Equip best dest])
         \<and> (notInInventory message \<longrightarrow>
              (\<forall>best' dest' rest'.
                 (\<exists>skipped pl'. rest = skipped @ (pl', dest') # rest' \<and>
                    (\<forall>x \<in> set skipped.
                       equipBestItemForSlot_begin (bot_of s) (fst x) (snd x) = None) \<and>
                    equipBestItemForSlot_begin (bot_of s) pl' dest' = Some best') \<longrightarrow>
                 resumePass rest (Some message) s
                   = s\<lparr>actions := actions s @ [Equip best' dest'],
                       awaiting := awaiting s @ [PassAwait rest']\<rparr>)
              \<and> ((\<forall>x \<in> set rest.
                     equipBestItemForSlot_begin (bot_of s) (fst x) (snd x) = None) \<longrightarrow>
                   resumePass rest (Some message) s = s))
         \<and> (\<not> notInInventory message \<longrightarrow>
              resumePass rest (Some message) s
                = s\<lparr>console := console s @
                      [''['' @ username (bot_of s) @ ''] Failed to optimise gear: '' @ message]\<rparr>)"
proof -
  have step: "equipBestItemForSlot b pl dest (Some message)
           = (if notInInventory message then Inr () else Inl message, [Equip best dest])"
    using assms by (simp add: equipBestItemForSlot_def equipBestItemForSlot_resume_def)
  have thrown: "\<not> notInInventory message \<Longrightarrow>
        resumePass rest (Some message) s
          = s\<lparr>console := console s @
                [''['' @ username (bot_of s) @ ''] Failed to optimise gear: '' @ message]\<rparr>"
    by (simp add: resumePass_def equipBestItemForSlot_resume_def log_def)
  have goes_on: "resumePass rest (Some message) s
          = s\<lparr>actions := actions s @ [Equip best' dest'],
              awaiting := awaiting s @ [PassAwait rest']\<rparr>"
    if "notInInventory message"
      and "\<exists>skipped pl'. rest = skipped @ (pl', dest') # rest' \<and>
             (\<forall>x \<in> set skipped. equipBestItemForSlot_begin (bot_of s) (fst x) (snd x) = None) \<and>
             equipBestItemForSlot_begin (bot_of s) pl' dest' = Some best'"
    for best' dest' rest'
  proof -
    from that(2) have "equipBestGear_run (bot_of s) rest = Some (best', dest', rest')"
      by (simp only: equipBestGear_run_Some)
    then show ?thesis using that(1)
      by (simp add: resumePass_def equipBestItemForSlot_resume_def continuePass_def)
  qed
  have ends: "resumePass rest (Some message) s = s"
    if "notInInventory message"
      and "\<forall>x \<in> set rest. equipBestItemForSlot_begin (bot_of s) (fst x) (snd x) = None"
  proof -
    from that(2) have "equipBestGear_run (bot_of s) rest = None"
      by (simp only: equipBestGear_run_None)
    then show ?thesis using that(1)
      by (simp add: resumePass_def equipBestItemForSlot_resume_def continuePass_def)
  qed
  from step thrown goes_on ends show ?thesis by blast
qed

theorem equip_failure_swallowed_or_thrown_witness:
  "equipBestItemForSlot_begin (bot_of armoury) WEAPON_PRIORITY ''hand'' = Some diamond_sword
   \<and> equipBestItemForSlot (bot_of armoury) WEAPON_PRIORITY ''hand''
       (Some ''Item is not in inventory'')
       = (Inr (), [Equip diamond_sword ''hand''])
   \<and> tl gearSlots
       = [(SHIELD_ITEMS, ''off-hand'')] @ (ARMOR_PRIORITY_head, ''head'') #
         [(ARMOR_PRIORITY_torso, ''torso''), (ARMOR_PRIORITY_legs, ''legs''),
          (ARMOR_PRIORITY_feet, ''feet'')]
   \<and> equipBestItemForSlot_begin (bot_of armoury) SHIELD_ITEMS ''off-hand'' = None
   \<and> equipBestItemForSlot_begin (bot_of armoury) ARMOR_PRIORITY_head ''head''
       = Some iron_helmet
   \<and> resumePass (tl gearSlots) (Some ''Item is not in inventory'') armoury
       = armoury\<lparr>actions := actions armoury @ [Equip iron_helmet ''head''],
                 awaiting := awaiting armoury @
                   [PassAwait [(ARMOR_PRIORITY_torso, ''torso''), (ARMOR_PRIORITY_legs, ''legs''),
                               (ARMOR_PRIORITY_feet, ''feet'')]]\<rparr>
   \<and> equipBestItemForSlot (bot_of armoury) WEAPON_PRIORITY ''hand''
       (Some ''Server rejected transaction for clicking on slot 36'')
       = (Inl ''Server rejected transaction for clicking on slot 36'',
          [Equip diamond_sword ''hand''])
   \<and> resumePass (tl gearSlots)
       (Some ''Server rejected transaction for clicking on slot 36'') armoury
       = armoury\<lparr>console := console armoury @
           [''['' @ username (bot_of armoury) @ ''] Failed to optimise gear: '' @
            ''Server rejected transaction for clicking on slot 36'']\<rparr>"
  using equip_failure_swallowed_or_thrown [OF sample_armoury(1),
          of "''Item is not in inventory''" "tl gearSlots" armoury]
        equip_failure_swallowed_or_thrown [OF sample_armoury(1),
          of "''Server rejected transaction for clicking on slot 36''" "tl gearSlots" armoury]
        sample_slots
  by (simp add: sample_armoury sample_messages)

section \<open>Healing\<close>

text \<open>Evaluations on the sample inventories.\<close>

lemma sample_heal_begin:
  "attemptHeal_begin (fighter 10 [stew] None) godlike_advanced rested 10000
     = (rested\<lparr>inProgress := True\<rparr>, Some (stew, True))"
  by code_simp

lemma sample_rested:
  "lastHeal rested = 0" "inProgress rested = False"
  by (simp_all add: rested_def)

text \<open>
  C4: \<open>attemptHeal\<close> returns \<open>null\<close> and leaves the heal state as it is, with no equip
  call, no item use and no timer, when the bot has no entity, or its health is at or above
  \<open>healThreshold\<close>, or a heal is in progress, or less than \<open>healCooldownMs\<close> has passed
  since \<open>lastHeal\<close>; the health listener then leaves the whole session as it is.
\<close>

theorem attemptHeal_guard_noop:
  assumes "entity b = None \<or> healThreshold adv \<le> health b \<or> inProgress state
           \<or> now - lastHeal state < healCooldownMs adv"
  shows "attemptHeal b adv state now equipError activateError = (Inr None, state, [], [])
         \<and> healListener adv now (s\<lparr>bot_of := b, healState := state\<rparr>)
             = s\<lparr>bot_of := b, healState := state\<rparr>"
  using assms by (auto simp: attemptHeal_def attemptHeal_begin_def healListener_def)

theorem attemptHeal_guard_noop_witness:
  "healThreshold godlike_advanced \<le> health (fighter 16 [stew] None)
   \<and> attemptHeal (fighter 16 [stew] None) godlike_advanced rested 10000 None None
       = (Inr None, rested, [], [])
   \<and> inProgress (rested\<lparr>inProgress := True\<rparr>)
   \<and> attemptHeal (fighter 10 [stew] None) godlike_advanced (rested\<lparr>inProgress := True\<rparr>)
         10000 None None
       = (Inr None, rested\<lparr>inProgress := True\<rparr>, [], [])
   \<and> (5000 :: real) - lastHeal rested < healCooldownMs godlike_advanced
   \<and> attemptHeal (fighter 10 [stew] None) godlike_advanced rested 5000 None None
       = (Inr None, rested, [], [])"
  using attemptHeal_guard_noop [of "fighter 16 [stew] None" godlike_advanced rested 10000
          None None arena]
        attemptHeal_guard_noop [of "fighter 10 [stew] None" godlike_advanced
          "rested\<lparr>inProgress := True\<rparr>" 10000 None None arena]
        attemptHeal_guard_noop [of "fighter 10 [stew] None" godlike_advanced rested 5000
          None None arena]
  by (simp add: fighter_def godlike_advanced_def rested_def)

text \<open>
  C10: when the equip call of \<open>attemptHeal\<close> throws after the guards have passed,
  \<open>lastHeal\<close> keeps its value, the error reaches the caller (the listener logs it), and the
  only timer set is the one that clears \<open>inProgress\<close> after the reset delay.
\<close>

theorem failed_equip_keeps_cooldown:
  assumes "attemptHeal_begin b adv state now = (state1, Some (it, soup))"
  shows "attemptHeal b adv state now (Some message) activateError
           = (Inl message, state\<lparr>inProgress := True\<rparr>, [Equip it ''hand''],
              [(ClearInProgressTask, if soup then 600 else 2000)])
         \<and> state1 = state\<lparr>inProgress := True\<rparr>
         \<and> lastHeal (state\<lparr>inProgress := True\<rparr>) = lastHeal state
         \<and> resumeHeal soup now (Some message) activateError s
           = log (''Failed to heal: '' @ message)
               (setTimeout ClearInProgressTask (if soup then 600 else 2000) s)"
  using assms
  by (auto simp: attemptHeal_def attemptHeal_begin_def attemptHeal_resume_def resumeHeal_def
      Let_def split: if_splits option.splits)

theorem failed_equip_keeps_cooldown_witness:
  "attemptHeal_begin (fighter 10 [stew] None) godlike_advanced rested 10000
     = (rested\<lparr>inProgress := True\<rparr>, Some (stew, True))
   \<and> attemptHeal (fighter 10 [stew] None) godlike_advanced rested 10000
       (Some ''Server rejected transaction'') None
       = (Inl ''Server rejected transaction'', rested\<lparr>inProgress := True\<rparr>,
          [Equip stew ''hand''], [(ClearInProgressTask, 600)])
   \<and> lastHeal (rested\<lparr>inProgress := True\<rparr>) = 0"
  using failed_equip_keeps_cooldown [OF sample_heal_begin, of "''Server rejected transaction''"
          None arena]
  by (simp add: sample_heal_begin sample_rested)

section \<open>Movement\<close>

text \<open>
  C9: a strafe tick with no engagement target sets the keys \<open>left\<close>, \<open>right\<close> and \<open>jump\<close>
  to released and changes nothing else of the session; a tick with a target negates the
  strafe direction and sets \<open>right\<close> active exactly when the new direction is positive and
  \<open>left\<close> to the opposite, so exactly one of the two is active.
\<close>

theorem strafeTick_behaviour:
  "(pvp_target (bot_of s) = None \<longrightarrow>
      strafeTick adv random s
        = s\<lparr>bot_of := (bot_of s)\<lparr>controls := (controls (bot_of s))
              (''left'' := False, ''right'' := False, ''jump'' := False)\<rparr>\<rparr>)
   \<and> (pvp_target (bot_of s) \<noteq> None \<longrightarrow>
      strafeDirection (strafeTick adv random s) = - strafeDirection s
      \<and> controls (bot_of (strafeTick adv random s)) ''right''
          = (0 < strafeDirection (strafeTick adv random s))
      \<and> controls (bot_of (strafeTick adv random s)) ''left''
          = (\<not> controls (bot_of (strafeTick adv random s)) ''right''))"
proof (cases "pvp_target (bot_of s)")
  case None
  then show ?thesis by (simp add: strafeTick_def stopStrafe_def setControlState_def)
next
  case (Some t)
  show ?thesis
  proof (cases "jumpChance adv \<noteq> 0 \<and> random < jumpChance adv")
    case True
    then show ?thesis using Some
      by (simp add: strafeTick_def Let_def setTimeout_def setControlState_def)
  next
    case False
    then have quiet: "(jumpChance adv \<noteq> 0 \<and> random < jumpChance adv) = False" by simp
    show ?thesis using Some
      by (simp add: strafeTick_def setControlState_def Let_def quiet)
  qed
qed

lemma sample_arena:
  "pvp_target (bot_of arena) = None" "strafeDirection arena = 1"
  "pvp_target (bot_of (engaged 7)) = Some 7" "strafeDirection (engaged 7) = 1"
  by (simp_all add: arena_def engaged_def spawn_def setupAdvancedCombat_def setupPvpLoop_def
      godlike_def scheduleEquip_def setTimeout_def fighter_def)

theorem strafeTick_behaviour_witness:
  "pvp_target (bot_of arena) = None
   \<and> strafeTick godlike_advanced (1 / 2) arena
       = arena\<lparr>bot_of := (bot_of arena)\<lparr>controls := (controls (bot_of arena))
              (''left'' := False, ''right'' := False, ''jump'' := False)\<rparr>\<rparr>
   \<and> pvp_target (bot_of (engaged 7)) = Some 7
   \<and> strafeDirection (strafeTick godlike_advanced (1 / 2) (engaged 7)) = - 1
   \<and> controls (bot_of (strafeTick godlike_advanced (1 / 2) (engaged 7))) ''right'' = False
   \<and> controls (bot_of (strafeTick godlike_advanced (1 / 2) (engaged 7))) ''left'' = True"
  using strafeTick_behaviour [of arena godlike_advanced "1 / 2"]
        strafeTick_behaviour [of "engaged 7" godlike_advanced "1 / 2"]
  by (simp add: sample_arena)

section \<open>Engagement\<close>

text \<open>Evaluations on the sample sessions.\<close>

lemma sample_skirmish:
  "find (\<lambda>t. fst t = 1) (timers skirmish) = Some (1, 4500, DisengageTask 21)"
  "pvp_target (bot_of skirmish) = Some 7"
  "player_entity (playerObjects (bot_of skirmish) 21) = Some \<lparr>ref = 7, position = at_x 5\<rparr>"
  "find (\<lambda>t. fst t = 1) (timers retargeted) = Some (1, 4500, DisengageTask 21)"
  "pvp_target (bot_of retargeted) = Some 9"
  "player_entity (playerObjects (bot_of retargeted) 21) = Some \<lparr>ref = 7, position = at_x 5\<rparr>"
  by code_simp+

lemma sample_rematch:
  "find (\<lambda>t. fst t = 1) (timers rematch) = Some (1, 4500, DisengageTask 21)"
  "timers rematch = [(1, 4500, DisengageTask 21), (3, 4500, DisengageTask 21)]"
  "pvp_target (bot_of rematch) = Some 8"
  "player_entity (playerObjects (bot_of rematch) 21) = Some \<lparr>ref = 8, position = at_x 6\<rparr>"
  "pvp_target (bot_of (step easy (Fire 1 None) rematch)) = None"
  by code_simp+

text \<open>
  C7, as stated, fails: the timer's callback closes over the player object and reads its
  entity when it runs, not when it was scheduled. Here the first disengage timer (handle
  1) was set while the engagement was on the player's entity 7. The client then replaced
  the player's entity by entity 8, and the next scan and attack timer started a newer
  engagement on entity 8. When the first timer fires it finds the target equal to the
  player's entity, now entity 8, and stops the newer engagement.
\<close>

theorem stale_disengage_counterexample:
  "find (\<lambda>t. fst t = 1) (timers skirmish) = Some (1, 4500, DisengageTask 21)
   \<and> pvp_target (bot_of skirmish) = Some 7
   \<and> player_entity (playerObjects (bot_of skirmish) 21) = Some \<lparr>ref = 7, position = at_x 5\<rparr>
   \<and> find (\<lambda>t. fst t = 1) (timers rematch) = Some (1, 4500, DisengageTask 21)
   \<and> pvp_target (bot_of rematch) = Some 8
   \<and> pvp_target (bot_of (step easy (Fire 1 None) rematch)) = None"
  by (simp add: sample_skirmish sample_rematch del: One_nat_def step.simps)

text \<open>
  C7 (amended): when the preset specifies \<open>attackDurationMs\<close>, the attack timer's callback
  sets one disengage timer, bound to the player object it has resolved for the target's
  name; without a duration it sets none. When that timer fires, it stops the engagement
  (and releases sprint when \<open>maintainSprint\<close> is set) if the engagement target is the
  entity which that player object has at that moment; with any other target, or with no
  target or no entity, it changes nothing but the timer list, from which it is gone.
\<close>

theorem disengage_follows_player_entity:
  assumes "find (\<lambda>t. fst t = h) (timers s) = Some (h, delay, DisengageTask a)"
  shows "(\<not> (\<exists>e. player_entity (playerObjects (bot_of s) a) = Some e \<and>
                pvp_target (bot_of s) = Some (ref e)) \<longrightarrow>
            step d (Fire h err) s = clearTimeout h s)
         \<and> ((\<exists>e. player_entity (playerObjects (bot_of s) a) = Some e \<and>
                pvp_target (bot_of s) = Some (ref e)) \<longrightarrow>
              pvp_target (bot_of (step d (Fire h err) s)) = None
              \<and> controls (bot_of (step d (Fire h err) s)) ''sprint''
                  = (\<not> maintainSprint d \<and> controls (bot_of s) ''sprint''))
         \<and> (entity (bot_of s0) \<noteq> None \<and> players (bot_of s0) = Some ps \<and>
            map_of ps (fst target) = Some (Some refreshed) \<and>
            player_entity (playerObjects (bot_of s0) refreshed) \<noteq> None \<longrightarrow>
              timers (attackTimeout d target err s0)
                = timers s0 @
                  (case attackDurationMs d of
                     None \<Rightarrow> []
                   | Some duration \<Rightarrow>
                       if duration \<noteq> 0 then [(nextHandle s0, duration, DisengageTask refreshed)]
                       else []))"
proof -
  have same: "sameEntity (pvp_target (bot_of s)) (player_entity (playerObjects (bot_of s) a))
          \<longleftrightarrow> (\<exists>e. player_entity (playerObjects (bot_of s) a) = Some e \<and>
                  pvp_target (bot_of s) = Some (ref e))"
    by (auto simp: sameEntity_def split: option.splits)
  have fired: "step d (Fire h err) s = disengageTimeout d a (clearTimeout h s)"
    using assms by simp
  have kept: "bot_of (clearTimeout h s) = bot_of s"
    by (simp add: clearTimeout_def)
  have quiet: "step d (Fire h err) s = clearTimeout h s"
    if "\<not> (\<exists>e. player_entity (playerObjects (bot_of s) a) = Some e \<and>
                pvp_target (bot_of s) = Some (ref e))"
  proof -
    from that same
    have "\<not> sameEntity (pvp_target (bot_of s)) (player_entity (playerObjects (bot_of s) a))"
      by blast
    then show ?thesis unfolding fired by (simp add: disengageTimeout_def kept)
  qed
  have stops: "pvp_target (bot_of (step d (Fire h err) s)) = None
              \<and> controls (bot_of (step d (Fire h err) s)) ''sprint''
                  = (\<not> maintainSprint d \<and> controls (bot_of s) ''sprint'')"
    if "\<exists>e. player_entity (playerObjects (bot_of s) a) = Some e \<and>
                pvp_target (bot_of s) = Some (ref e)"
  proof -
    from that same
    have "sameEntity (pvp_target (bot_of s)) (player_entity (playerObjects (bot_of s) a))"
      by blast
    then show ?thesis unfolding fired
      by (simp add: disengageTimeout_def kept pvp_stop_def setControlState_def Let_def)
  qed
  have sets: "timers (attackTimeout d target err s0)
                = timers s0 @
                  (case attackDurationMs d of
                     None \<Rightarrow> []
                   | Some duration \<Rightarrow>
                       if duration \<noteq> 0 then [(nextHandle s0, duration, DisengageTask refreshed)]
                       else [])"
    if "entity (bot_of s0) \<noteq> None" and "players (bot_of s0) = Some ps"
      and "map_of ps (fst target) = Some (Some refreshed)"
      and "player_entity (playerObjects (bot_of s0) refreshed) \<noteq> None"
    using that
    by (auto simp: attackTimeout_def Let_def setTimeout_def log_def split: option.splits)
  from quiet stops sets show ?thesis by blast
qed

lemma sample_attack:
  "entity (bot_of (run easy (fighter 20 [] None) [Scan (1 / 2)])) \<noteq> None"
  "players (bot_of (run easy (fighter 20 [] None) [Scan (1 / 2)])) = Some [(''alice'', Some 21)]"
  "map_of [(''alice'', Some (21 :: nat))] ''alice'' = Some (Some 21)"
  "player_entity (playerObjects (bot_of (run easy (fighter 20 [] None) [Scan (1 / 2)])) 21)
     \<noteq> None"
  "timers (run easy (fighter 20 [] None) [Scan (1 / 2)])
     = [(0, 1550, AttackTask (''alice'', \<lparr>ref = 7, position = at_x 5\<rparr>))]"
  "attackDurationMs easy = Some 4500"
  "nextHandle (run easy (fighter 20 [] None) [Scan (1 / 2)]) = 1"
  by code_simp+

theorem disengage_follows_player_entity_witness:
  "find (\<lambda>t. fst t = 1) (timers skirmish) = Some (1, 4500, DisengageTask 21)
   \<and> player_entity (playerObjects (bot_of skirmish) 21) = Some \<lparr>ref = 7, position = at_x 5\<rparr>
   \<and> pvp_target (bot_of skirmish) = Some 7
   \<and> pvp_target (bot_of (step easy (Fire 1 None) skirmish)) = None
   \<and> find (\<lambda>t. fst t = 1) (timers retargeted) = Some (1, 4500, DisengageTask 21)
   \<and> player_entity (playerObjects (bot_of retargeted) 21)
       = Some \<lparr>ref = 7, position = at_x 5\<rparr>
   \<and> pvp_target (bot_of retargeted) = Some 9
   \<and> step easy (Fire 1 None) retargeted = clearTimeout 1 retargeted
   \<and> map_of [(''alice'', Some (21 :: nat))] ''alice'' = Some (Some 21)
   \<and> attackDurationMs easy = Some 4500
   \<and> timers (attackTimeout easy (''alice'', \<lparr>ref = 7, position = at_x 5\<rparr>) None
         (run easy (fighter 20 [] None) [Scan (1 / 2)]))
       = [(0, 1550, AttackTask (''alice'', \<lparr>ref = 7, position = at_x 5\<rparr>)),
          (1, 4500, DisengageTask 21)]"
  using disengage_follows_player_entity [OF sample_skirmish(1), of easy None
          "run easy (fighter 20 [] None) [Scan (1 / 2)]" "[(''alice'', Some 21)]"
          "(''alice'', \<lparr>ref = 7, position = at_x 5\<rparr>)" 21]
        disengage_follows_player_entity [OF sample_skirmish(4), of easy None
          "run easy (fighter 20 [] None) [Scan (1 / 2)]" "[(''alice'', Some 21)]"
          "(''alice'', \<lparr>ref = 7, position = at_x 5\<rparr>)" 21]
  by (simp add: sample_skirmish sample_attack del: One_nat_def step.simps)

section \<open>The session invariant\<close>

lemma invariant_frame [simp]:
  "invariant (s\<lparr>bot_of := b\<rparr>) = invariant s"
  "invariant (s\<lparr>console := c\<rparr>) = invariant s"
  "invariant (s\<lparr>actions := a\<rparr>) = invariant s"
  "invariant (s\<lparr>strafeDirection := dir\<rparr>) = invariant s"
  "invariant (s\<lparr>scanInterval := f\<rparr>) = invariant s"
  "invariant (s\<lparr>strafeInterval := f\<rparr>) = invariant s"
  "invariant (s\<lparr>listening := f\<rparr>) = invariant s"
  "invariant (s\<lparr>slotListener := f\<rparr>) = invariant s"
  "invariant (s\<lparr>ended := f\<rparr>) = invariant s"
  by (simp_all add: invariant_def handles_ok_def attack_ok_def equip_ok_def heal_ok_def
      pendingPasses_def)

lemma invariant_log [simp]: "invariant (log m s) = invariant s"
  by (simp add: log_def)

lemma invariant_stopStrafe [simp]: "invariant (stopStrafe s) = invariant s"
  by (simp add: stopStrafe_def)

lemma invariant_lastHeal [simp]:
  "invariant (s\<lparr>healState := (healState s)\<lparr>lastHeal := t\<rparr>\<rparr>) = invariant s"
  by (simp add: invariant_def handles_ok_def attack_ok_def equip_ok_def heal_ok_def
      pendingPasses_def)

lemma invariant_setTimeout:
  assumes "invariant s" and "\<not> isAttack t" and "t \<noteq> EquipPassTask"
  shows "invariant (setTimeout t delay s)"
proof -
  have fresh: "\<And>x. x \<in> set (timers s) \<Longrightarrow> fst x \<noteq> nextHandle s"
    using assms(1) by (auto simp: invariant_def handles_ok_def)
  have "handles_ok (setTimeout t delay s)"
    using assms(1) fresh by (auto simp: invariant_def handles_ok_def setTimeout_def less_Suc_eq)
  moreover have "attack_ok (setTimeout t delay s)"
    using assms(1,2) by (auto simp: invariant_def handles_ok_def attack_ok_def setTimeout_def)
  moreover have "equip_ok (setTimeout t delay s)"
    using assms(1,3) by (simp add: invariant_def equip_ok_def pendingPasses_def setTimeout_def)
  moreover have "heal_ok (setTimeout t delay s)"
    using assms(1) by (auto simp: invariant_def heal_ok_def setTimeout_def)
  ultimately show ?thesis by (simp add: invariant_def)
qed

lemma invariant_scheduleEquip: "invariant s \<Longrightarrow> invariant (scheduleEquip s)"
proof (cases "equipScheduled s")
  case True
  then show "invariant s \<Longrightarrow> invariant (scheduleEquip s)" by (simp add: scheduleEquip_def)
next
  case False
  assume inv: "invariant s"
  have fresh: "\<And>x. x \<in> set (timers s) \<Longrightarrow> fst x \<noteq> nextHandle s"
    using inv by (auto simp: invariant_def handles_ok_def)
  have "handles_ok (scheduleEquip s)"
    using inv fresh False
    by (auto simp: invariant_def handles_ok_def scheduleEquip_def setTimeout_def less_Suc_eq)
  moreover have "attack_ok (scheduleEquip s)"
    using inv False
    by (auto simp: invariant_def handles_ok_def attack_ok_def scheduleEquip_def setTimeout_def
        isAttack_def)
  moreover have "equip_ok (scheduleEquip s)"
    using inv False
    by (simp add: invariant_def equip_ok_def pendingPasses_def scheduleEquip_def setTimeout_def)
  moreover have "heal_ok (scheduleEquip s)"
    using inv False by (auto simp: invariant_def heal_ok_def scheduleEquip_def setTimeout_def)
  ultimately show "invariant (scheduleEquip s)" by (simp add: invariant_def)
qed

text \<open>Removing the timer with a given handle, when handles are distinct.\<close>

lemma filter_handle_count:
  assumes "distinct (map fst ts)" and "(h, v) \<in> set ts"
  shows "length (filter P (filter (\<lambda>x. fst x \<noteq> h) ts))
           = length (filter P ts) - (if P (h, v) then 1 else 0)"
  using assms
proof (induction ts)
  case Nil
  then show ?case by simp
next
  case (Cons a ts)
  show ?case
  proof (cases "a = (h, v)")
    case True
    then have "\<And>x. x \<in> set ts \<Longrightarrow> fst x \<noteq> h"
      using Cons.prems(1) by force
    then have "filter (\<lambda>x. fst x \<noteq> h) ts = ts"
      by (simp add: filter_id_conv)
    then show ?thesis using True by simp
  next
    case False
    then have in_ts: "(h, v) \<in> set ts" using Cons.prems(2) by simp
    then have "h \<in> fst ` set ts" by force
    then have "fst a \<noteq> h" using Cons.prems(1) by auto
    moreover have "P (h, v) \<Longrightarrow> 0 < length (filter P ts)"
      using in_ts by (auto simp: filter_empty_conv)
    ultimately show ?thesis using Cons.IH [OF _ in_ts] Cons.prems(1) by auto
  qed
qed

lemma filter_handle_keeps:
  assumes "distinct (map fst ts)" and "(h, v) \<in> set ts" and "x \<in> set ts" and "x \<noteq> (h, v)"
  shows "x \<in> set (filter (\<lambda>x. fst x \<noteq> h) ts)"
proof -
  have "fst x \<noteq> h"
  proof
    assume "fst x = h"
    then have "(h, snd x) \<in> set ts" using assms(3) by (metis prod.collapse)
    from eq_key_imp_eq_value [OF assms(1) this assms(2)] \<open>fst x = h\<close> assms(4)
    show False by (metis prod.collapse)
  qed
  then show ?thesis using assms(3) by simp
qed

lemma find_handle:
  assumes "find (\<lambda>t. fst t = h) ts = Some (h', v)"
  shows "h' = h" and "(h, v) \<in> set ts"
  using assms by (induction ts) (auto split: if_splits)

lemma clearTimeout_parts:
  assumes "invariant s"
  shows "handles_ok (clearTimeout h s)" and "attack_ok (clearTimeout h s)"
  using assms
  by (auto simp: invariant_def handles_ok_def attack_ok_def clearTimeout_def distinct_map_filter)

lemma invariant_clearTimeout:
  assumes "invariant s" and "(h, delay, t) \<in> set (timers s)"
    and "t \<noteq> EquipPassTask" and "t \<noteq> ClearInProgressTask"
  shows "invariant (clearTimeout h s)"
proof -
  have d: "distinct (map fst (timers s))"
    using assms(1) by (simp add: invariant_def handles_ok_def)
  have "equip_ok (clearTimeout h s)"
    using assms(1,3) filter_handle_count [OF d assms(2), of "\<lambda>t. snd (snd t) = EquipPassTask"]
    by (simp add: invariant_def equip_ok_def pendingPasses_def clearTimeout_def)
  moreover have "heal_ok (clearTimeout h s)"
    unfolding heal_ok_def
  proof
    assume "inProgress (healState (clearTimeout h s))"
    then have "inProgress (healState s)" by (simp add: clearTimeout_def)
    then consider x where "x \<in> set (timers s)" "snd (snd x) = ClearInProgressTask"
      | "\<exists>x \<in> set (awaiting s). isHealAwait x"
      using assms(1) by (auto simp: invariant_def heal_ok_def)
    then show "(\<exists>t \<in> set (timers (clearTimeout h s)). snd (snd t) = ClearInProgressTask) \<or>
               (\<exists>x \<in> set (awaiting (clearTimeout h s)). isHealAwait x)"
    proof cases
      case 1
      then have "x \<noteq> (h, delay, t)" using assms(4) by auto
      from filter_handle_keeps [OF d assms(2) 1(1) this]
      have "x \<in> set (timers (clearTimeout h s))" by (simp add: clearTimeout_def)
      then show ?thesis using 1(2) by blast
    next
      case 2
      then show ?thesis by (simp add: clearTimeout_def)
    qed
  qed
  ultimately show ?thesis using clearTimeout_parts [OF assms(1)] by (simp add: invariant_def)
qed

lemma scheduled_is_attack:
  assumes "invariant s" and "scheduledAttackTimeout s = Some h" and "x \<in> set (timers s)"
    and "fst x = h"
  shows "isAttack (snd (snd x))"
  using assms by (auto simp: invariant_def attack_ok_def)

lemma invariant_clear_scheduled:
  assumes "invariant s" and "scheduledAttackTimeout s = Some h"
  shows "invariant (clearTimeout h s)"
proof (cases "\<exists>x \<in> set (timers s). fst x = h")
  case True
  then obtain delay t where x: "(h, delay, t) \<in> set (timers s)" by force
  from scheduled_is_attack [OF assms x] have "isAttack t" by simp
  then have "t \<noteq> EquipPassTask" "t \<noteq> ClearInProgressTask" by (auto simp: isAttack_def)
  with invariant_clearTimeout [OF assms(1) x] show ?thesis by simp
next
  case False
  then have "filter (\<lambda>x. fst x \<noteq> h) (timers s) = timers s"
    by (simp add: filter_id_conv)
  then have "clearTimeout h s = s" by (simp add: clearTimeout_def)
  then show ?thesis using assms(1) by simp
qed

text \<open>After the scheduled handle is cleared, no attack timer is pending.\<close>

lemma no_attack_after_clear:
  assumes "invariant s"
  shows "pendingAttacks (case scheduledAttackTimeout s of Some h \<Rightarrow> clearTimeout h s | None \<Rightarrow> s)
           = []"
  using assms
  by (auto simp: invariant_def attack_ok_def pendingAttacks_def clearTimeout_def filter_empty_conv
      split: option.splits)

lemma invariant_scan: "invariant s \<Longrightarrow> invariant (scan d random s)"
proof -
  assume inv: "invariant s"
  define s1 where
    "s1 = (case scheduledAttackTimeout s of Some h \<Rightarrow> clearTimeout h s | None \<Rightarrow> s)"
  have inv1: "invariant s1"
    unfolding s1_def using inv invariant_clear_scheduled [OF inv]
    by (simp split: option.splits)
  have none: "pendingAttacks s1 = []"
    unfolding s1_def by (rule no_attack_after_clear [OF inv])
  have fresh: "\<forall>x \<in> set (timers s1). fst x \<noteq> nextHandle s1"
    using inv1 by (auto simp: invariant_def handles_ok_def)
  have new: "invariant ((setTimeout (AttackTask target) delay s1)
                         \<lparr>scheduledAttackTimeout := Some (nextHandle s1)\<rparr>)"
    for target delay
  proof -
    let ?s2 = "(setTimeout (AttackTask target) delay s1)
                 \<lparr>scheduledAttackTimeout := Some (nextHandle s1)\<rparr>"
    have "handles_ok ?s2"
      using inv1 fresh by (auto simp: invariant_def handles_ok_def setTimeout_def less_Suc_eq)
    moreover have "attack_ok ?s2"
      using none fresh
      by (fastforce simp: attack_ok_def setTimeout_def pendingAttacks_def filter_empty_conv
          isAttack_def)
    moreover have "equip_ok ?s2"
      using inv1 by (simp add: invariant_def equip_ok_def pendingPasses_def setTimeout_def)
    moreover have "heal_ok ?s2"
      using inv1 by (auto simp: invariant_def heal_ok_def setTimeout_def)
    ultimately show ?thesis by (simp add: invariant_def)
  qed
  show "invariant (scan d random s)"
    using inv new unfolding scan_def s1_def [symmetric]
    by (simp add: Let_def split: option.splits)
qed

lemma invariant_attackTimeout: "invariant s \<Longrightarrow> invariant (attackTimeout d target err s)"
  by (simp add: attackTimeout_def Let_def invariant_setTimeout isAttack_def
      split: option.splits)

lemma invariant_disengageTimeout [simp]: "invariant (disengageTimeout d r s) = invariant s"
  by (simp add: disengageTimeout_def Let_def)

lemma invariant_continuePass: "invariant s \<Longrightarrow> invariant (continuePass todo s)"
  by (auto simp: continuePass_def invariant_def handles_ok_def attack_ok_def equip_ok_def
      heal_ok_def pendingPasses_def split: option.splits)

lemma invariant_strafeTick: "invariant s \<Longrightarrow> invariant (strafeTick adv random s)"
  by (simp add: strafeTick_def Let_def invariant_setTimeout isAttack_def split: option.splits)

lemma invariant_healListener: "invariant s \<Longrightarrow> invariant (healListener adv now s)"
  by (auto simp: healListener_def attemptHeal_begin_def Let_def invariant_def handles_ok_def
      attack_ok_def equip_ok_def heal_ok_def pendingPasses_def isHealAwait_def
      split: option.splits)

lemma invariant_collectListener: "invariant s \<Longrightarrow> invariant (collectListener c s)"
  by (simp add: collectListener_def invariant_scheduleEquip split: option.splits)

lemma invariant_deathListener: "invariant s \<Longrightarrow> invariant (deathListener s)"
  by (simp add: deathListener_def invariant_setTimeout isAttack_def)

lemma invariant_respawnListener: "invariant s \<Longrightarrow> invariant (respawnListener s)"
  by (simp add: respawnListener_def invariant_setTimeout isAttack_def)

lemma invariant_endListeners: "invariant s \<Longrightarrow> invariant (endListeners d s)"
proof -
  assume inv: "invariant s"
  have "invariant (case scheduledAttackTimeout s of
                     Some h \<Rightarrow> clearTimeout h (s\<lparr>scanInterval := False\<rparr>)
                   | None \<Rightarrow> s\<lparr>scanInterval := False\<rparr>)"
  proof (cases "scheduledAttackTimeout s")
    case None
    then show ?thesis using inv by simp
  next
    case (Some h)
    have "invariant (s\<lparr>scanInterval := False\<rparr>)" using inv by simp
    from invariant_clear_scheduled [OF this, of h] Some show ?thesis by simp
  qed
  then show "invariant (endListeners d s)"
    by (simp add: endListeners_def Let_def split: option.splits)
qed

text \<open>
  Settling a heal: whatever the outcome, the timer that clears \<open>inProgress\<close> is set, so
  the heal part of the invariant holds afterwards even though the waiting call is gone.
\<close>

text \<open>
  Settling a heal: whatever the outcome, the timer that clears \<open>inProgress\<close> is set, so
  the heal part of the invariant holds afterwards even though the waiting call is gone.
\<close>

lemma parts_setTimeout:
  "handles_ok s \<Longrightarrow> handles_ok (setTimeout t delay s)"
  "handles_ok s \<Longrightarrow> attack_ok s \<Longrightarrow> \<not> isAttack t \<Longrightarrow> attack_ok (setTimeout t delay s)"
  "equip_ok s \<Longrightarrow> t \<noteq> EquipPassTask \<Longrightarrow> equip_ok (setTimeout t delay s)"
  "heal_ok s \<Longrightarrow> heal_ok (setTimeout t delay s)"
  "heal_ok (setTimeout ClearInProgressTask delay s)"
proof -
  show "handles_ok s \<Longrightarrow> handles_ok (setTimeout t delay s)"
    by (fastforce simp: handles_ok_def setTimeout_def less_Suc_eq)
  show "handles_ok s \<Longrightarrow> attack_ok s \<Longrightarrow> \<not> isAttack t \<Longrightarrow> attack_ok (setTimeout t delay s)"
    by (auto simp: handles_ok_def attack_ok_def setTimeout_def)
  show "equip_ok s \<Longrightarrow> t \<noteq> EquipPassTask \<Longrightarrow> equip_ok (setTimeout t delay s)"
    by (simp add: equip_ok_def pendingPasses_def setTimeout_def)
  show "heal_ok s \<Longrightarrow> heal_ok (setTimeout t delay s)"
    by (auto simp: heal_ok_def setTimeout_def)
  show "heal_ok (setTimeout ClearInProgressTask delay s)"
    by (simp add: heal_ok_def setTimeout_def)
qed

lemma parts_frame [simp]:
  "handles_ok (s\<lparr>healState := hs\<rparr>) = handles_ok s"
  "attack_ok (s\<lparr>healState := hs\<rparr>) = attack_ok s"
  "equip_ok (s\<lparr>healState := hs\<rparr>) = equip_ok s"
  "handles_ok (s\<lparr>actions := a\<rparr>) = handles_ok s"
  "attack_ok (s\<lparr>actions := a\<rparr>) = attack_ok s"
  "equip_ok (s\<lparr>actions := a\<rparr>) = equip_ok s"
  "handles_ok (s\<lparr>awaiting := w\<rparr>) = handles_ok s"
  "attack_ok (s\<lparr>awaiting := w\<rparr>) = attack_ok s"
  "equip_ok (s\<lparr>awaiting := w\<rparr>) = equip_ok s"
  "handles_ok (s\<lparr>console := c\<rparr>) = handles_ok s"
  "attack_ok (s\<lparr>console := c\<rparr>) = attack_ok s"
  "equip_ok (s\<lparr>console := c\<rparr>) = equip_ok s"
  "heal_ok (s\<lparr>console := c\<rparr>) = heal_ok s"
  "heal_ok (s\<lparr>actions := a\<rparr>) = heal_ok s"
  "heal_ok (s\<lparr>healState := (healState s)\<lparr>lastHeal := t\<rparr>\<rparr>) = heal_ok s"
  "handles_ok (s\<lparr>equipScheduled := f\<rparr>) = handles_ok s"
  "attack_ok (s\<lparr>equipScheduled := f\<rparr>) = attack_ok s"
  "heal_ok (s\<lparr>equipScheduled := f\<rparr>) = heal_ok s"
  by (simp_all add: handles_ok_def attack_ok_def equip_ok_def heal_ok_def pendingPasses_def)

lemma invariant_resumeHeal:
  assumes "handles_ok s" and "attack_ok s" and "equip_ok s"
  shows "invariant (resumeHeal soup now equipError activateError s)"
proof -
  have failed: "invariant (log m (setTimeout ClearInProgressTask delay s))" for m delay
    using assms by (simp add: invariant_def parts_setTimeout isAttack_def log_def)
  have healed: "invariant (setTimeout ScheduleEquipTask d3
                  (setTimeout ClearInProgressTask d2
                    (setTimeout DeactivateItemTask d1
                      (s\<lparr>healState := (healState s)\<lparr>lastHeal := now\<rparr>,
                         actions := actions s @ [ActivateItem]\<rparr>))))" for d1 d2 d3
    using assms by (simp add: invariant_def parts_setTimeout isAttack_def)
  show ?thesis
  proof (cases equipError)
    case (Some m)
    then show ?thesis using failed
      by (simp add: resumeHeal_def attemptHeal_resume_def Let_def)
  next
    case None
    show ?thesis
    proof (cases activateError)
      case (Some m)
      then show ?thesis using failed None
        by (simp add: resumeHeal_def attemptHeal_resume_def Let_def)
    next
      case None
      then show ?thesis using healed \<open>equipError = None\<close>
        by (simp add: resumeHeal_def attemptHeal_resume_def Let_def)
    qed
  qed
qed

lemma invariant_resumePass: "invariant s \<Longrightarrow> invariant (resumePass rest equipError s)"
  by (simp add: resumePass_def invariant_continuePass split: sum.splits)

lemma set_without_nth:
  assumes "i < length xs" and "x \<in> set xs" and "x \<noteq> xs ! i"
  shows "x \<in> set (take i xs @ drop (Suc i) xs)"
proof -
  have "xs = take i xs @ xs ! i # drop (Suc i) xs"
    using assms(1) by (rule id_take_nth_drop)
  then have "set xs = set (take i xs @ xs ! i # drop (Suc i) xs)"
    by simp
  then have "x \<in> set (take i xs @ xs ! i # drop (Suc i) xs)"
    using assms(2) by simp
  then show ?thesis using assms(3) by auto
qed

lemma invariant_settled:
  "invariant s \<Longrightarrow> invariant (step d (EquipSettled i equipError activateError) s)"
proof (cases "i < length (awaiting s)")
  case False
  then show "invariant s \<Longrightarrow> ?thesis" by simp
next
  case True
  assume inv: "invariant s"
  let ?s' = "s\<lparr>awaiting := take i (awaiting s) @ drop (Suc i) (awaiting s)\<rparr>"
  have parts: "handles_ok ?s'" "attack_ok ?s'" "equip_ok ?s'"
    using inv by (simp_all add: invariant_def)
  show ?thesis
  proof (cases "awaiting s ! i")
    case (HealAwait soup now)
    then show ?thesis using True invariant_resumeHeal [OF parts] by simp
  next
    case (PassAwait rest)
    have "heal_ok ?s'"
      unfolding heal_ok_def
    proof
      assume "inProgress (healState ?s')"
      then have "inProgress (healState s)" by simp
      then consider "\<exists>t \<in> set (timers s). snd (snd t) = ClearInProgressTask"
        | x where "x \<in> set (awaiting s)" "isHealAwait x"
        using inv by (auto simp: invariant_def heal_ok_def)
      then show "(\<exists>t \<in> set (timers ?s'). snd (snd t) = ClearInProgressTask) \<or>
                 (\<exists>x \<in> set (awaiting ?s'). isHealAwait x)"
      proof cases
        case 1
        then show ?thesis by simp
      next
        case 2
        then have "x \<noteq> awaiting s ! i" using PassAwait by (auto simp: isHealAwait_def)
        from set_without_nth [OF True 2(1) this] 2(2) show ?thesis by auto
      qed
    qed
    with parts have "invariant ?s'" by (simp add: invariant_def)
    from invariant_resumePass [OF this] show ?thesis using True PassAwait by simp
  qed
qed

lemma passes_after_fire:
  assumes "invariant s" and "(h, delay, t) \<in> set (timers s)"
  shows "length (pendingPasses (clearTimeout h s))
           = length (pendingPasses s) - (if t = EquipPassTask then 1 else 0)"
proof -
  have d: "distinct (map fst (timers s))"
    using assms(1) by (simp add: invariant_def handles_ok_def)
  from filter_handle_count [OF d assms(2), of "\<lambda>t. snd (snd t) = EquipPassTask"]
  show ?thesis by (simp add: pendingPasses_def clearTimeout_def)
qed

lemma heal_after_fire:
  assumes "invariant s" and "(h, delay, t) \<in> set (timers s)" and "t \<noteq> ClearInProgressTask"
  shows "heal_ok (clearTimeout h s)"
  unfolding heal_ok_def
proof
  have d: "distinct (map fst (timers s))"
    using assms(1) by (simp add: invariant_def handles_ok_def)
  assume "inProgress (healState (clearTimeout h s))"
  then have "inProgress (healState s)" by (simp add: clearTimeout_def)
  then consider x where "x \<in> set (timers s)" "snd (snd x) = ClearInProgressTask"
    | "\<exists>x \<in> set (awaiting s). isHealAwait x"
    using assms(1) by (auto simp: invariant_def heal_ok_def)
  then show "(\<exists>t \<in> set (timers (clearTimeout h s)). snd (snd t) = ClearInProgressTask) \<or>
             (\<exists>x \<in> set (awaiting (clearTimeout h s)). isHealAwait x)"
  proof cases
    case 1
    then have "x \<noteq> (h, delay, t)" using assms(3) by auto
    from filter_handle_keeps [OF d assms(2) 1(1) this]
    have "x \<in> set (timers (clearTimeout h s))" by (simp add: clearTimeout_def)
    then show ?thesis using 1(2) by blast
  next
    case 2
    then show ?thesis by (simp add: clearTimeout_def)
  qed
qed

lemma invariant_fire: "invariant s \<Longrightarrow> invariant (step d (Fire h err) s)"
proof (cases "find (\<lambda>t. fst t = h) (timers s)")
  case None
  then show "invariant s \<Longrightarrow> ?thesis" by simp
next
  case (Some found)
  assume inv: "invariant s"
  obtain h' delay t where found: "found = (h', delay, t)" by (cases found)
  from find_handle [OF Some [unfolded found]]
  have h': "h' = h" and mem: "(h, delay, t) \<in> set (timers s)" by simp_all
  have fired: "step d (Fire h err) s = runTask d t err (clearTimeout h s)"
    using Some found by simp
  note parts = clearTimeout_parts [OF inv, of h]
  note passes = passes_after_fire [OF inv mem]
  have count: "length (pendingPasses s) = (if equipScheduled s then 1 else 0)"
    using inv by (simp add: invariant_def equip_ok_def)
  show ?thesis
  proof (cases t)
    case (AttackTask target)
    with invariant_clearTimeout [OF inv mem] have "invariant (clearTimeout h s)" by simp
    from invariant_attackTimeout [OF this] show ?thesis using fired AttackTask by simp
  next
    case (DisengageTask r)
    with invariant_clearTimeout [OF inv mem] have "invariant (clearTimeout h s)" by simp
    then show ?thesis using fired DisengageTask by simp
  next
    case EquipPassTask
    have "equip_ok ((clearTimeout h s)\<lparr>equipScheduled := False\<rparr>)"
      using passes count EquipPassTask
      by (simp add: equip_ok_def pendingPasses_def clearTimeout_def)
    moreover have "heal_ok (clearTimeout h s)"
      using heal_after_fire [OF inv mem] EquipPassTask by simp
    ultimately have "invariant ((clearTimeout h s)\<lparr>equipScheduled := False\<rparr>)"
      using parts by (simp add: invariant_def)
    from invariant_continuePass [OF this] show ?thesis
      using fired EquipPassTask by (simp add: equipPassTimeout_def)
  next
    case ScheduleEquipTask
    with invariant_clearTimeout [OF inv mem] have "invariant (clearTimeout h s)" by simp
    from invariant_scheduleEquip [OF this] show ?thesis using fired ScheduleEquipTask by simp
  next
    case JumpReleaseTask
    with invariant_clearTimeout [OF inv mem] have "invariant (clearTimeout h s)" by simp
    then show ?thesis using fired JumpReleaseTask by simp
  next
    case DeactivateItemTask
    with invariant_clearTimeout [OF inv mem] have "invariant (clearTimeout h s)" by simp
    then show ?thesis using fired DeactivateItemTask by simp
  next
    case ClearInProgressTask
    let ?s' = "(clearTimeout h s)\<lparr>healState := (healState (clearTimeout h s))\<lparr>inProgress := False\<rparr>\<rparr>"
    have "equip_ok (clearTimeout h s)"
      using passes count ClearInProgressTask
      by (simp add: equip_ok_def clearTimeout_def)
    moreover have "heal_ok ?s'" by (simp add: heal_ok_def)
    ultimately have "invariant ?s'" using parts by (simp add: invariant_def)
    then show ?thesis using fired ClearInProgressTask by simp
  qed
qed

lemma invariant_step: "invariant s \<Longrightarrow> invariant (step d e s)"
proof -
  assume inv: "invariant s"
  show ?thesis
  proof (cases e)
    case (Scan random)
    then show ?thesis using inv invariant_scan [OF inv] by simp
  next
    case (StrafeTick random)
    then show ?thesis using inv invariant_strafeTick [OF inv]
      by (simp split: option.splits)
  next
    case (Fire h err)
    then show ?thesis using invariant_fire [OF inv] by simp
  next
    case (Health now)
    then show ?thesis using inv invariant_healListener [OF inv]
      by (simp split: option.splits)
  next
    case (PlayerCollect collector)
    then show ?thesis using inv invariant_collectListener [OF inv] by simp
  next
    case Death
    then show ?thesis using inv invariant_deathListener [OF inv] by simp
  next
    case Respawn
    then show ?thesis using inv invariant_respawnListener [OF inv] by simp
  next
    case UpdateSlot
    then show ?thesis using inv invariant_scheduleEquip [OF inv] by simp
  next
    case (EquipSettled i equipError activateError)
    then show ?thesis using invariant_settled [OF inv] by simp
  next
    case (World b)
    then show ?thesis using inv by simp
  next
    case End
    then show ?thesis using inv invariant_endListeners [OF inv] by simp
  qed
qed

lemma invariant_spawn: "invariant (spawn d b)"
proof -
  have "invariant \<lparr>bot_of = b, scheduledAttackTimeout = None, scanInterval = True,
          strafeDirection = 1, strafeInterval = False,
          healState = \<lparr>inProgress = False, lastHeal = 0\<rparr>, equipScheduled = False,
          listening = False, slotListener = False, ended = False, timers = [], nextHandle = 0,
          awaiting = [], actions = [], console = []\<rparr>"
    by (simp add: invariant_def handles_ok_def attack_ok_def equip_ok_def heal_ok_def
        pendingPasses_def)
  from this invariant_scheduleEquip [OF this] show ?thesis
    by (simp add: spawn_def setupPvpLoop_def setupAdvancedCombat_def split: option.splits)
qed

lemma run_snoc: "run d b (evs @ [e]) = step d e (run d b evs)"
  by (simp add: run_def)

lemma invariant_run: "invariant (run d b evs)"
proof (induction evs rule: rev_induct)
  case Nil
  show ?case using invariant_spawn by (simp add: run_def)
next
  case (snoc e evs)
  then show ?case by (simp add: run_snoc invariant_step)
qed


section \<open>Pending attack timers\<close>

lemma same_handle_short:
  assumes "distinct (map fst ts)" and "\<forall>t \<in> set ts. fst t = h"
  shows "length ts \<le> 1"
proof (cases ts)
  case Nil
  then show ?thesis by simp
next
  case (Cons a rest)
  show ?thesis
  proof (cases rest)
    case Nil
    then show ?thesis using Cons by simp
  next
    case (Cons c more)
    then have "fst a = fst c" using assms(2) \<open>ts = a # rest\<close> by simp
    then show ?thesis using assms(1) \<open>ts = a # rest\<close> Cons by simp
  qed
qed

lemma pendingAttacks_scheduled:
  assumes "invariant s" and "t \<in> set (pendingAttacks s)"
  shows "scheduledAttackTimeout s = Some (fst t)"
  using assms by (auto simp: invariant_def attack_ok_def pendingAttacks_def)

lemma pendingAttacks_short:
  assumes "invariant s"
  shows "length (pendingAttacks s) \<le> 1"
proof (cases "scheduledAttackTimeout s")
  case None
  then have "pendingAttacks s = []"
    using assms by (auto simp: invariant_def attack_ok_def pendingAttacks_def filter_empty_conv)
  then show ?thesis by simp
next
  case (Some h)
  have "distinct (map fst (pendingAttacks s))"
    using assms by (simp add: invariant_def handles_ok_def pendingAttacks_def distinct_map_filter)
  moreover have "\<forall>t \<in> set (pendingAttacks s). fst t = h"
    using pendingAttacks_scheduled [OF assms] Some by auto
  ultimately show ?thesis by (rule same_handle_short)
qed

lemma scan_replaces_attack:
  assumes "invariant s" and "scanInterval s" and "entity (bot_of s) = Some me"
    and "findClosestPlayer (bot_of s) scanRadiusSq = Some target"
  shows "pendingAttacks (step d (Scan random) s)
           = [(nextHandle s,
               randomBetween (fst (reactionDelayRange d)) (snd (reactionDelayRange d)) random,
               AttackTask target)]"
proof -
  define s1 where
    "s1 = (case scheduledAttackTimeout s of Some h \<Rightarrow> clearTimeout h s | None \<Rightarrow> s)"
  have none: "pendingAttacks s1 = []"
    unfolding s1_def by (rule no_attack_after_clear [OF assms(1)])
  have same: "nextHandle s1 = nextHandle s"
    unfolding s1_def by (simp add: clearTimeout_def split: option.splits)
  have "scan d random s
          = (setTimeout (AttackTask target)
               (randomBetween (fst (reactionDelayRange d)) (snd (reactionDelayRange d)) random) s1)
              \<lparr>scheduledAttackTimeout := Some (nextHandle s1)\<rparr>"
    using assms(3,4) unfolding scan_def s1_def [symmetric] by (simp add: Let_def)
  then show ?thesis
    using none same assms(2) by (simp add: pendingAttacks_def setTimeout_def isAttack_def)
qed

lemma fresh_handle:
  assumes "invariant s" and "t \<in> set (timers s)"
  shows "fst t < nextHandle s"
  using assms by (simp add: invariant_def handles_ok_def)

text \<open>
  C2: in every state a session can reach, at most one attack timer is pending, and it is
  the one whose handle \<open>scheduledAttackTimeout\<close> holds; a scan that finds a candidate
  leaves exactly one pending attack timer, the one it has just set under a handle that no
  earlier timer has, so a timer that was pending before the scan never runs.
\<close>

theorem at_most_one_pending_attack:
  "length (pendingAttacks (run d b evs)) \<le> 1
   \<and> (\<forall>t \<in> set (pendingAttacks (run d b evs)).
         scheduledAttackTimeout (run d b evs) = Some (fst t))
   \<and> (scanInterval (run d b evs) \<and> entity (bot_of (run d b evs)) \<noteq> None \<and>
       findClosestPlayer (bot_of (run d b evs)) scanRadiusSq = Some target \<longrightarrow>
         pendingAttacks (run d b (evs @ [Scan random]))
           = [(nextHandle (run d b evs),
               randomBetween (fst (reactionDelayRange d)) (snd (reactionDelayRange d)) random,
               AttackTask target)]
         \<and> (\<forall>t \<in> set (timers (run d b evs)). fst t < nextHandle (run d b evs)))"
  using pendingAttacks_short [OF invariant_run, of d b evs]
    pendingAttacks_scheduled [OF invariant_run, of _ d b evs]
    scan_replaces_attack [OF invariant_run, of d b evs _ target d random]
    fresh_handle [OF invariant_run, of _ d b evs]
  by (auto simp: run_snoc)

lemma sample_scans:
  "pendingAttacks (run hard (fighter 20 [] None) [Scan (1 / 2)])
     = [(0, 225, AttackTask (''alice'', \<lparr>ref = 7, position = at_x 5\<rparr>))]"
  "scanInterval (run hard (fighter 20 [] None) [Scan (1 / 2)])"
  "entity (bot_of (run hard (fighter 20 [] None) [Scan (1 / 2)]))
     = Some \<lparr>ref = 0, position = origin\<rparr>"
  "findClosestPlayer (bot_of (run hard (fighter 20 [] None) [Scan (1 / 2)])) scanRadiusSq
     = Some (''alice'', \<lparr>ref = 7, position = at_x 5\<rparr>)"
  "nextHandle (run hard (fighter 20 [] None) [Scan (1 / 2)]) = 1"
  "randomBetween (fst (reactionDelayRange hard)) (snd (reactionDelayRange hard)) (1 / 4)
     = 325 / 2"
  by code_simp+

theorem at_most_one_pending_attack_witness:
  "pendingAttacks (run hard (fighter 20 [] None) [Scan (1 / 2)])
     = [(0, 225, AttackTask (''alice'', \<lparr>ref = 7, position = at_x 5\<rparr>))]
   \<and> scanInterval (run hard (fighter 20 [] None) [Scan (1 / 2)])
   \<and> findClosestPlayer (bot_of (run hard (fighter 20 [] None) [Scan (1 / 2)])) scanRadiusSq
       = Some (''alice'', \<lparr>ref = 7, position = at_x 5\<rparr>)
   \<and> pendingAttacks (run hard (fighter 20 [] None) [Scan (1 / 2), Scan (1 / 4)])
       = [(1, 325 / 2, AttackTask (''alice'', \<lparr>ref = 7, position = at_x 5\<rparr>))]"
  using at_most_one_pending_attack [of hard "fighter 20 [] None" "[Scan (1 / 2)]"
          "(''alice'', \<lparr>ref = 7, position = at_x 5\<rparr>)" "1 / 4"]
  by (simp add: sample_scans del: One_nat_def)


section \<open>Gear passes and the debounce flag\<close>

text \<open>
  C3, as stated, fails: \<open>equipScheduled\<close> is cleared when the timer fires, before the
  pass runs, so a request that arrives while a pass waits for its equip call is not
  dropped. Here the first pass is waiting to equip the sword when the bot collects an
  item; the request sets a second timer, and when it fires two passes are in flight.
\<close>

theorem two_gear_passes_counterexample:
  "length (passesInFlight (run godlike (fighter 20 [diamond_sword] None) [Fire 0 None])) = 1
   \<and> \<not> equipScheduled (run godlike (fighter 20 [diamond_sword] None) [Fire 0 None])
   \<and> pendingPasses (run godlike (fighter 20 [diamond_sword] None)
        [Fire 0 None, PlayerCollect 0]) = [(1, 0, EquipPassTask)]
   \<and> length (passesInFlight (run godlike (fighter 20 [diamond_sword] None)
        [Fire 0 None, PlayerCollect 0, Fire 1 None])) = 2"
  by code_simp

text \<open>
  C3 (amended): in every state a session can reach, at most one timer of \<open>scheduleEquip\<close>
  is pending, and one is pending exactly when \<open>equipScheduled\<close> is set; a call of
  \<open>scheduleEquip\<close> while the flag is set is dropped; a call while it is clear sets the
  flag and one timer; the timer's callback clears the flag before it starts the pass, so
  requests that arrive while a pass runs schedule a further pass.
\<close>

theorem equip_requests_coalesce_until_timer_fires:
  "length (pendingPasses (run d b evs)) = (if equipScheduled (run d b evs) then 1 else 0)
   \<and> (equipScheduled s \<longrightarrow> scheduleEquip s = s)
   \<and> (\<not> equipScheduled s \<longrightarrow>
        equipScheduled (scheduleEquip s) \<and>
        pendingPasses (scheduleEquip s) = pendingPasses s @ [(nextHandle s, 0, EquipPassTask)])
   \<and> \<not> equipScheduled (equipPassTimeout s)"
proof -
  have "length (pendingPasses (run d b evs)) = (if equipScheduled (run d b evs) then 1 else 0)"
    using invariant_run [of d b evs] by (simp add: invariant_def equip_ok_def)
  moreover have "\<not> equipScheduled (equipPassTimeout s)"
    by (simp add: equipPassTimeout_def continuePass_def split: option.splits)
  ultimately show ?thesis
    by (simp add: scheduleEquip_def setTimeout_def pendingPasses_def)
qed

lemma sample_requests:
  "equipScheduled arena"
  "pendingPasses arena = [(0, 0, EquipPassTask)]"
  "\<not> equipScheduled (run godlike (fighter 20 [] None) [Fire 0 None])"
  "pendingPasses (run godlike (fighter 20 [] None) [Fire 0 None]) = []"
  "nextHandle (run godlike (fighter 20 [] None) [Fire 0 None]) = 1"
  by code_simp+

theorem equip_requests_coalesce_until_timer_fires_witness:
  "equipScheduled arena
   \<and> pendingPasses (run godlike (fighter 20 [] None) []) = [(0, 0, EquipPassTask)]
   \<and> scheduleEquip arena = arena
   \<and> \<not> equipScheduled (run godlike (fighter 20 [] None) [Fire 0 None])
   \<and> pendingPasses (scheduleEquip (run godlike (fighter 20 [] None) [Fire 0 None]))
       = [(1, 0, EquipPassTask)]"
  using equip_requests_coalesce_until_timer_fires [of godlike "fighter 20 [] None" "[]" arena]
        equip_requests_coalesce_until_timer_fires [of godlike "fighter 20 [] None" "[]"
          "run godlike (fighter 20 [] None) [Fire 0 None]"]
        sample_requests
  by (simp add: run_def arena_def del: One_nat_def)

section \<open>The heal in progress\<close>

text \<open>
  C6: in every state a session can reach, while \<open>inProgress\<close> is set either
  \<open>attemptHeal\<close> still waits for its equip call or the timer that clears the flag is
  pending. When the equip call settles, with success or with an error from the equip or
  from the item use, the timer is set with the delay of the item class (600 for a soup,
  2000 for a golden apple); and when that timer fires \<open>inProgress\<close> is cleared.
\<close>

theorem heal_in_progress_is_cleared:
  "(inProgress (healState (run d b evs)) \<longrightarrow>
      (\<exists>x \<in> set (awaiting (run d b evs)). isHealAwait x) \<or>
      (\<exists>t \<in> set (timers (run d b evs)). snd (snd t) = ClearInProgressTask))
   \<and> (attemptHeal_begin bt adv state now = (state1, Some (it, soup)) \<longrightarrow>
        inProgress state1 \<and>
        (ClearInProgressTask, if soup then 600 else 2000)
          \<in> set (snd (snd (snd (attemptHeal bt adv state now equipError activateError)))))
   \<and> (i < length (awaiting s) \<and> awaiting s ! i = HealAwait soup now \<longrightarrow>
        (\<exists>h \<ge> nextHandle s.
           (h, if soup then 600 else 2000, ClearInProgressTask)
             \<in> set (timers (step d (EquipSettled i equipError activateError) s))))
   \<and> (find (\<lambda>t. fst t = h) (timers s) = Some (h, delay, ClearInProgressTask) \<longrightarrow>
        \<not> inProgress (healState (step d (Fire h err) s)))"
proof -
  have reach: "inProgress (healState (run d b evs)) \<longrightarrow>
      (\<exists>x \<in> set (awaiting (run d b evs)). isHealAwait x) \<or>
      (\<exists>t \<in> set (timers (run d b evs)). snd (snd t) = ClearInProgressTask)"
    using invariant_run [of d b evs] by (auto simp: invariant_def heal_ok_def)
  have call: "attemptHeal_begin bt adv state now = (state1, Some (it, soup)) \<longrightarrow>
        inProgress state1 \<and>
        (ClearInProgressTask, if soup then 600 else 2000)
          \<in> set (snd (snd (snd (attemptHeal bt adv state now equipError activateError))))"
    by (auto simp: attemptHeal_def attemptHeal_begin_def attemptHeal_resume_def Let_def
        split: if_splits option.splits)
  have settle: "i < length (awaiting s) \<and> awaiting s ! i = HealAwait soup now \<longrightarrow>
        (\<exists>h \<ge> nextHandle s.
           (h, if soup then 600 else 2000, ClearInProgressTask)
             \<in> set (timers (step d (EquipSettled i equipError activateError) s)))"
  proof (intro impI, elim conjE)
    assume i: "i < length (awaiting s)" and w: "awaiting s ! i = HealAwait soup now"
    let ?s' = "s\<lparr>awaiting := take i (awaiting s) @ drop (Suc i) (awaiting s)\<rparr>"
    have eq: "step d (EquipSettled i equipError activateError) s
                = resumeHeal soup now equipError activateError ?s'"
      using i w by simp
    show "\<exists>h \<ge> nextHandle s.
           (h, if soup then 600 else 2000, ClearInProgressTask)
             \<in> set (timers (step d (EquipSettled i equipError activateError) s))"
    proof (cases "equipError = None \<and> activateError = None")
      case True
      then have "(Suc (nextHandle s), if soup then 600 else 2000, ClearInProgressTask)
             \<in> set (timers (step d (EquipSettled i equipError activateError) s))"
        unfolding eq
        by (simp add: resumeHeal_def attemptHeal_resume_def Let_def setTimeout_def)
      then show ?thesis by (meson le_SucI order_refl)
    next
      case False
      then have "(nextHandle s, if soup then 600 else 2000, ClearInProgressTask)
             \<in> set (timers (step d (EquipSettled i equipError activateError) s))"
        unfolding eq
        by (auto simp: resumeHeal_def attemptHeal_resume_def Let_def setTimeout_def log_def
            split: option.splits)
      then show ?thesis by blast
    qed
  qed
  have fire: "find (\<lambda>t. fst t = h) (timers s) = Some (h, delay, ClearInProgressTask) \<longrightarrow>
        \<not> inProgress (healState (step d (Fire h err) s))"
    by (simp add: clearTimeout_def)
  from reach call settle fire show ?thesis by blast
qed

lemma sample_heal:
  "inProgress (healState (run godlike (fighter 10 [stew] None) [Health 10000]))"
  "awaiting (run godlike (fighter 10 [stew] None) [Health 10000]) = [HealAwait True 10000]"
  "timers (run godlike (fighter 10 [stew] None)
      [Health 10000, EquipSettled 0 (Some ''Server rejected transaction'') None])
     = [(0, 0, EquipPassTask), (1, 600, ClearInProgressTask)]"
  "inProgress (healState (run godlike (fighter 10 [stew] None)
      [Health 10000, EquipSettled 0 (Some ''Server rejected transaction'') None]))"
  "timers (run godlike (fighter 10 [stew] None) [Health 10000, EquipSettled 0 None None])
     = [(0, 0, EquipPassTask), (1, 150, DeactivateItemTask), (2, 600, ClearInProgressTask),
        (3, 450, ScheduleEquipTask)]"
  "find (\<lambda>t. fst t = 2)
     (timers (run godlike (fighter 10 [stew] None) [Health 10000, EquipSettled 0 None None]))
     = Some (2, 600, ClearInProgressTask)"
  "inProgress (healState (run godlike (fighter 10 [stew] None)
      [Health 10000, EquipSettled 0 None None]))"
  by code_simp+

theorem heal_in_progress_is_cleared_witness:
  "inProgress (healState (run godlike (fighter 10 [stew] None) [Health 10000]))
   \<and> awaiting (run godlike (fighter 10 [stew] None) [Health 10000]) = [HealAwait True 10000]
   \<and> timers (run godlike (fighter 10 [stew] None)
        [Health 10000, EquipSettled 0 (Some ''Server rejected transaction'') None])
       = [(0, 0, EquipPassTask), (1, 600, ClearInProgressTask)]
   \<and> find (\<lambda>t. fst t = 2)
        (timers (run godlike (fighter 10 [stew] None) [Health 10000, EquipSettled 0 None None]))
       = Some (2, 600, ClearInProgressTask)
   \<and> inProgress (healState (run godlike (fighter 10 [stew] None)
        [Health 10000, EquipSettled 0 None None]))
   \<and> \<not> inProgress (healState (run godlike (fighter 10 [stew] None)
        [Health 10000, EquipSettled 0 None None, Fire 2 None]))"
  using heal_in_progress_is_cleared
          [of godlike "fighter 10 [stew] None" "[Health 10000]"
              "fighter 10 [stew] None" godlike_advanced rested 10000
              "rested\<lparr>inProgress := True\<rparr>" stew True None None 0
              "run godlike (fighter 10 [stew] None) [Health 10000]" 2 600 None]
        heal_in_progress_is_cleared
          [of godlike "fighter 10 [stew] None" "[Health 10000, EquipSettled 0 None None]"
              "fighter 10 [stew] None" godlike_advanced rested 10000
              "rested\<lparr>inProgress := True\<rparr>" stew True None None 0
              "run godlike (fighter 10 [stew] None) [Health 10000, EquipSettled 0 None None]"
              2 600 None]
        sample_heal
  by (simp add: run_snoc [of _ _ "[Health 10000, EquipSettled 0 None None]", simplified]
      del: step.simps)


end
